(* ===== verification/Prelude.thy ===== *)
theory Prelude
  imports Main "HOL-Library.Word"
begin

text \<open>
  What every component shares: the machine integers of the code, the values of
  \<^verbatim>\<open>std::io::Error\<close>, fallible state passing (the operator \<^verbatim>\<open>?\<close> of Rust), the byte
  reader and the byte writer that \<^verbatim>\<open>std::io::Read\<close> and \<^verbatim>\<open>std::io::Write\<close> give, the
  little-endian reading of byte lists and the validity of UTF-8 that
  \<^verbatim>\<open>String::from_utf8\<close> checks. The collections \<open>wire_defs\<close>,
  \<open>dec_simps\<close>, \<open>parser_intros\<close> and \<open>error_intros\<close> gather the rules the component
  proofs run on.
\<close>

named_theorems wire_defs "definitions of the wire format"
named_theorems dec_simps "decoding what was encoded"
named_theorems parser_intros "decoders are parsers"
named_theorems error_intros "the errors a decoder can return"

section \<open>Machine integers and strings\<close>

type_synonym u8 = "8 word"
type_synonym u16 = "16 word"
type_synonym u32 = "32 word"
type_synonym u64 = "64 word"
type_synonym bytes = "u8 list"

text \<open>A Rust \<^verbatim>\<open>String\<close> is its UTF-8 bytes; \<^verbatim>\<open>len()\<close> counts bytes.\<close>

type_synonym rstring = "u8 list"

text \<open>The bytes of an ASCII literal of the source.\<close>

definition ascii :: "string \<Rightarrow> rstring" where
  "ascii s = map of_char s"

section \<open>Input/output errors of the standard library\<close>

datatype (plugins only: code size) io_kind =
    NotFound | PermissionDenied | ConnectionRefused | ConnectionReset
  | HostUnreachable | NetworkUnreachable | ConnectionAborted | NotConnected
  | AddrInUse | AddrNotAvailable | NetworkDown | BrokenPipe | AlreadyExists
  | WouldBlock | NotADirectory | IsADirectory | DirectoryNotEmpty
  | ReadOnlyFilesystem | StaleNetworkFileHandle | InvalidInput | InvalidData
  | TimedOut | WriteZero | StorageFull | NotSeekable | QuotaExceeded
  | FileTooLarge | ResourceBusy | ExecutableFileBusy | Deadlock
  | CrossesDevices | TooManyLinks | InvalidFilename | ArgumentListTooLong
  | Interrupted | Unsupported | UnexpectedEof | OutOfMemory | Other

text \<open>
  An \<^verbatim>\<open>io::Error\<close> holds a raw OS error number, a bare kind, or a kind with a payload
  (here the message it was made with). \<^verbatim>\<open>raw_os_error()\<close> is \<^verbatim>\<open>Some\<close> for the first only.
\<close>

datatype io_error = Os int | Simple io_kind | Custom io_kind string

abbreviation unexpected_eof :: io_error where
  "unexpected_eof \<equiv> Custom UnexpectedEof ''failed to fill whole buffer''"

abbreviation write_zero :: io_error where
  "write_zero \<equiv> Custom WriteZero ''failed to write whole buffer''"

section \<open>Fallible state passing\<close>

text \<open>
  A computation takes a state and returns a result and the next state. \<open>and_then\<close> is
  the operator \<^verbatim>\<open>?\<close> followed by the rest of the function: an error returns at once
  and keeps the effects so far.
\<close>

type_synonym ('s, 'e, 'a) comp = "'s \<Rightarrow> ('e + 'a) \<times> 's"

definition ok :: "'a \<Rightarrow> ('s, 'e, 'a) comp" where
  "ok x s = (Inr x, s)"

definition fail :: "'e \<Rightarrow> ('s, 'e, 'a) comp" where
  "fail e s = (Inl e, s)"

definition and_then :: "('s, 'e, 'a) comp \<Rightarrow> ('a \<Rightarrow> ('s, 'e, 'b) comp) \<Rightarrow> ('s, 'e, 'b) comp" where
  "and_then d k s = (case d s of (Inl e, s') \<Rightarrow> (Inl e, s') | (Inr x, s') \<Rightarrow> k x s')"

lemma and_then_Inr [simp]: "d s = (Inr x, s') \<Longrightarrow> and_then d k s = k x s'"
  by (simp add: and_then_def)

lemma and_then_Inl [simp]: "d s = (Inl e, s') \<Longrightarrow> and_then d k s = (Inl e, s')"
  by (simp add: and_then_def)

lemma ok_eq [simp]: "ok x s = (res, s') \<longleftrightarrow> res = Inr x \<and> s' = s"
  by (auto simp: ok_def)

lemma fail_eq [simp]: "fail e s = (res, s') \<longleftrightarrow> res = Inl e \<and> s' = s"
  by (auto simp: fail_def)

lemma fst_ok [simp]: "fst (ok x s) = Inr x" and snd_ok [simp]: "snd (ok x s) = s"
  by (simp_all add: ok_def)

lemma fst_fail [simp]: "fst (fail e s) = Inl e" and snd_fail [simp]: "snd (fail e s) = s"
  by (simp_all add: fail_def)

lemma ok_and_then [simp]: "and_then (ok x) k = k x"
  by (rule ext) (simp add: and_then_def ok_def)

lemma fail_and_then [simp]: "and_then (fail e) k = fail e"
  by (rule ext) (simp add: and_then_def fail_def)

lemma and_then_ok [simp]: "and_then d ok = d"
  by (rule ext) (auto simp: and_then_def ok_def split: prod.splits sum.splits)

lemma and_then_assoc:
  "and_then (and_then d k) h = and_then d (\<lambda>x. and_then (k x) h)"
  by (rule ext) (auto simp: and_then_def split: prod.splits sum.splits)

lemma and_then_eq_Inr:
  "and_then d k s = (Inr y, s'') \<longleftrightarrow> (\<exists>x s'. d s = (Inr x, s') \<and> k x s' = (Inr y, s''))"
  by (auto simp: and_then_def split: prod.splits sum.splits)

lemma and_then_eq_Inl:
  "and_then d k s = (Inl e, s'') \<longleftrightarrow>
     d s = (Inl e, s'') \<or> (\<exists>x s'. d s = (Inr x, s') \<and> k x s' = (Inl e, s''))"
  by (auto simp: and_then_def split: prod.splits sum.splits)

lemma and_then_InrE [elim]:
  assumes "and_then d k s = (Inr y, s'')"
  obtains x s' where "d s = (Inr x, s')" and "k x s' = (Inr y, s'')"
  using assms by (auto simp: and_then_eq_Inr)

section \<open>Little-endian numbers\<close>

primrec le_bytes :: "nat \<Rightarrow> nat \<Rightarrow> bytes" where
  "le_bytes 0 x = []"
| "le_bytes (Suc n) x = word_of_nat x # le_bytes n (x div 256)"

primrec le_nat :: "bytes \<Rightarrow> nat" where
  "le_nat [] = 0"
| "le_nat (b # bs) = unat b + 256 * le_nat bs"

lemma length_le_bytes [simp]: "length (le_bytes n x) = n"
  by (induction n arbitrary: x) simp_all

lemma le_nat_le_bytes: "le_nat (le_bytes n x) = x mod 256 ^ n"
proof (induction n arbitrary: x)
  case 0
  show ?case by simp
next
  case (Suc n)
  have "x mod 256 ^ Suc n = x mod 256 + 256 * (x div 256 mod 256 ^ n)"
    by (simp add: mod_mult2_eq)
  then show ?case
    by (simp add: Suc.IH unat_of_nat)
qed

lemma unat_u8_less: "unat (b :: u8) < 256"
  using unsigned_less [of b] by simp

lemma le_nat_less: "le_nat bs < 256 ^ length bs"
proof (induction bs)
  case (Cons b bs)
  with unat_u8_less [of b] show ?case by simp
qed simp

lemma le_bytes_le_nat: "length bs = n \<Longrightarrow> le_bytes n (le_nat bs) = bs"
proof (induction bs arbitrary: n)
  case (Cons b bs)
  have "unat b < 256" by (rule unat_u8_less)
  moreover have "word_of_nat (unat b + 256 * m) = b" for m
  proof -
    have "(256::u8) = 0" by simp
    then have "(256::u8) * word_of_nat m = 0" by (simp only: mult_zero_left)
    then show ?thesis by (simp only: of_nat_add of_nat_mult of_nat_numeral of_nat_unat ucast_id add_0_right)
  qed
  ultimately show ?case using Cons by (auto simp: div_add1_eq)
qed simp

section \<open>The byte reader\<close>

text \<open>
  A reader is the bytes still unread. \<open>read_exact\<close> is \<^verbatim>\<open>Read::read_exact\<close> on an
  in-memory source: too few bytes are consumed and reported as an unexpected end.
\<close>

type_synonym 'a reader = "(bytes, io_error, 'a) comp"

definition read_exact :: "nat \<Rightarrow> bytes reader" where
  "read_exact n s =
     (if n \<le> length s then (Inr (take n s), drop n s) else (Inl unexpected_eof, []))"

lemma read_exact_append [simp]: "length b = n \<Longrightarrow> read_exact n (b @ r) = (Inr b, r)"
  by (simp add: read_exact_def)

lemma read_exact_0 [simp]: "read_exact 0 = ok []"
  by (rule ext) (simp add: read_exact_def ok_def)

lemma read_exact_InrD:
  "read_exact n s = (Inr b, r) \<Longrightarrow> length b = n \<and> s = b @ r"
  by (auto simp: read_exact_def split: if_splits)

section \<open>The byte writer\<close>

text \<open>
  A writer holds the bytes written so far and the room left: \<open>None\<close> for a buffer that
  grows (\<^verbatim>\<open>Vec<u8>\<close>, the \<^verbatim>\<open>BytesMut\<close> of the server), \<open>Some n\<close> for a fixed
  buffer (\<^verbatim>\<open>&mut [u8]\<close>), whose \<^verbatim>\<open>write_all\<close> fills what is left and then fails.
\<close>

record writer =
  written :: bytes
  room :: "nat option"

type_synonym 'a writing = "(writer, io_error, 'a) comp"

definition write_all :: "bytes \<Rightarrow> unit writing" where
  "write_all bs w =
     (case room w of
        None \<Rightarrow> (Inr (), w\<lparr>written := written w @ bs\<rparr>)
      | Some n \<Rightarrow>
          if length bs \<le> n
          then (Inr (), w\<lparr>written := written w @ bs, room := Some (n - length bs)\<rparr>)
          else (Inl write_zero, w\<lparr>written := written w @ take n bs, room := Some 0\<rparr>))"

lemma write_all_append:
  "and_then (write_all a) (\<lambda>_. write_all b) = write_all (a @ b)"
  by (rule ext) (auto simp: and_then_def write_all_def split: option.splits)

lemma write_all_Nil [simp]: "write_all [] = ok ()"
  by (rule ext) (auto simp: write_all_def ok_def split: option.splits)

text \<open>
  The contract of \<^verbatim>\<open>Encodable::encode\<close>: write these bytes and return their number.
\<close>

definition emit :: "bytes \<Rightarrow> nat writing" where
  "emit bs = and_then (write_all bs) (\<lambda>_. ok (length bs))"

lemma emit_growing:
  "room w = None \<Longrightarrow> emit bs w = (Inr (length bs), w\<lparr>written := written w @ bs\<rparr>)"
  by (simp add: emit_def and_then_def write_all_def ok_def)

lemma emit_fixed:
  "room w = Some n \<Longrightarrow>
     emit bs w =
       (if length bs \<le> n
        then (Inr (length bs), w\<lparr>written := written w @ bs, room := Some (n - length bs)\<rparr>)
        else (Inl write_zero, w\<lparr>written := written w @ take n bs, room := Some 0\<rparr>))"
  by (simp add: emit_def and_then_def write_all_def ok_def)

section \<open>Valid UTF-8\<close>

definition utf8_cont :: "u8 \<Rightarrow> bool" where
  "utf8_cont b \<longleftrightarrow> 0x80 \<le> b \<and> b \<le> 0xBF"

text \<open>
  Well-formed byte sequences as \<^verbatim>\<open>core::str::from_utf8\<close> accepts them: no overlong
  forms, no surrogates, nothing above U+10FFFF.
\<close>

fun utf8_valid :: "bytes \<Rightarrow> bool" where
  "utf8_valid [] = True"
| "utf8_valid (b0 # r) =
     (if b0 < 0x80 then utf8_valid r
      else if 0xC2 \<le> b0 \<and> b0 \<le> 0xDF then
        (case r of b1 # r1 \<Rightarrow> utf8_cont b1 \<and> utf8_valid r1 | [] \<Rightarrow> False)
      else if 0xE0 \<le> b0 \<and> b0 \<le> 0xEF then
        (case r of b1 # b2 # r2 \<Rightarrow>
           (if b0 = 0xE0 then 0xA0 \<le> b1 \<and> b1 \<le> 0xBF
            else if b0 = 0xED then 0x80 \<le> b1 \<and> b1 \<le> 0x9F
            else utf8_cont b1) \<and> utf8_cont b2 \<and> utf8_valid r2
         | _ \<Rightarrow> False)
      else if 0xF0 \<le> b0 \<and> b0 \<le> 0xF4 then
        (case r of b1 # b2 # b3 # r3 \<Rightarrow>
           (if b0 = 0xF0 then 0x90 \<le> b1 \<and> b1 \<le> 0xBF
            else if b0 = 0xF4 then 0x80 \<le> b1 \<and> b1 \<le> 0x8F
            else utf8_cont b1) \<and> utf8_cont b2 \<and> utf8_cont b3 \<and> utf8_valid r3
         | _ \<Rightarrow> False)
      else False)"

lemma utf8_valid_ascii: "(\<And>b. b \<in> set bs \<Longrightarrow> b < 0x80) \<Longrightarrow> utf8_valid bs"
  by (induction bs) simp_all

end
