(* ===== verification/FCall.thy ===== *)
theory FCall
  imports Prelude
begin

unbundle bit_operations_syntax

text \<open>
  The 9P2000.L data model of \<^verbatim>\<open>crates/rs9p/src/fcall.rs\<close>: the protocol constants, the
  structures a message carries, the message types with their discriminants, the message
  bodies \<open>fcall\<close> and the envelope \<open>Msg\<close>, with their size and accessor functions. The
  types made by \<^verbatim>\<open>bitflags!\<close> are their bits, as \<^verbatim>\<open>bits()\<close> returns them; the constants
  each of them declares are listed in the order of the source.
\<close>

section \<open>Constants\<close>

definition P92000 :: rstring where "P92000 = ascii ''9P2000''"
definition P92000L :: rstring where "P92000L = ascii ''9P2000.L''"
definition VERSION_UNKNOWN :: rstring where "VERSION_UNKNOWN = ascii ''unknown''"

definition NOTAG :: u16 where "NOTAG = NOT 0"
definition NOFID :: u32 where "NOFID = NOT 0"
definition NONUNAME :: u32 where "NONUNAME = NOT 0"
definition IOHDRSZ :: u32 where "IOHDRSZ = 24"
definition READDIRHDRSZ :: u32 where "READDIRHDRSZ = 24"
definition V9FS_PORT :: u16 where "V9FS_PORT = 564"

section \<open>Flag types\<close>

text \<open>All the bits a flag type declares.\<close>

definition all_bits :: "'a::len word list \<Rightarrow> 'a word" where
  "all_bits fs = foldr (OR) fs 0"

text \<open>\<^verbatim>\<open>RDLOCK\<close>, \<^verbatim>\<open>WRLOCK\<close>, \<^verbatim>\<open>UNLOCK\<close>.\<close>

definition LockType_flags :: "u8 list" where
  "LockType_flags = [0, 1, 2]"

text \<open>\<^verbatim>\<open>BLOCK\<close>, \<^verbatim>\<open>RECLAIM\<close>.\<close>

definition LockFlag_flags :: "u32 list" where
  "LockFlag_flags = [1, 2]"

text \<open>\<^verbatim>\<open>SUCCESS\<close>, \<^verbatim>\<open>BLOCKED\<close>, \<^verbatim>\<open>ERROR\<close>, \<^verbatim>\<open>GRACE\<close>.\<close>

definition LockStatus_flags :: "u8 list" where
  "LockStatus_flags = [0, 1, 2, 3]"

abbreviation (input) QIdType_DIR :: u8 where "QIdType_DIR \<equiv> 0x80"
abbreviation (input) QIdType_SYMLINK :: u8 where "QIdType_SYMLINK \<equiv> 0x02"
abbreviation (input) QIdType_FILE :: u8 where "QIdType_FILE \<equiv> 0x00"

text \<open>
  \<^verbatim>\<open>DIR\<close>, \<^verbatim>\<open>APPEND\<close>, \<^verbatim>\<open>EXCL\<close>, \<^verbatim>\<open>MOUNT\<close>, \<^verbatim>\<open>AUTH\<close>, \<^verbatim>\<open>TMP\<close>, \<^verbatim>\<open>SYMLINK\<close>, \<^verbatim>\<open>LINK\<close>,
  \<^verbatim>\<open>FILE\<close>.
\<close>

definition QIdType_flags :: "u8 list" where
  "QIdType_flags = [QIdType_DIR, 0x40, 0x20, 0x10, 0x08, 0x04, QIdType_SYMLINK, 0x01, QIdType_FILE]"

text \<open>
  \<^verbatim>\<open>MODE\<close>, \<^verbatim>\<open>NLINK\<close>, \<^verbatim>\<open>UID\<close>, \<^verbatim>\<open>GID\<close>, \<^verbatim>\<open>RDEV\<close>, \<^verbatim>\<open>ATIME\<close>, \<^verbatim>\<open>MTIME\<close>, \<^verbatim>\<open>CTIME\<close>,
  \<^verbatim>\<open>INO\<close>, \<^verbatim>\<open>SIZE\<close>, \<^verbatim>\<open>BLOCKS\<close>, \<^verbatim>\<open>BTIME\<close>, \<^verbatim>\<open>GEN\<close>, \<^verbatim>\<open>DATA_VERSION\<close>, \<^verbatim>\<open>BASIC\<close>,
  \<^verbatim>\<open>ALL\<close>.
\<close>

definition GetAttrMask_flags :: "u64 list" where
  "GetAttrMask_flags =
     [0x00000001, 0x00000002, 0x00000004, 0x00000008, 0x00000010, 0x00000020, 0x00000040,
      0x00000080, 0x00000100, 0x00000200, 0x00000400, 0x00000800, 0x00001000, 0x00002000,
      0x000007ff, 0x00003fff]"

abbreviation (input) SetAttrMask_MODE :: u32 where "SetAttrMask_MODE \<equiv> 0x00000001"
abbreviation (input) SetAttrMask_UID :: u32 where "SetAttrMask_UID \<equiv> 0x00000002"
abbreviation (input) SetAttrMask_GID :: u32 where "SetAttrMask_GID \<equiv> 0x00000004"
abbreviation (input) SetAttrMask_SIZE :: u32 where "SetAttrMask_SIZE \<equiv> 0x00000008"
abbreviation (input) SetAttrMask_ATIME :: u32 where "SetAttrMask_ATIME \<equiv> 0x00000010"
abbreviation (input) SetAttrMask_MTIME :: u32 where "SetAttrMask_MTIME \<equiv> 0x00000020"
abbreviation (input) SetAttrMask_CTIME :: u32 where "SetAttrMask_CTIME \<equiv> 0x00000040"
abbreviation (input) SetAttrMask_ATIME_SET :: u32 where "SetAttrMask_ATIME_SET \<equiv> 0x00000080"
abbreviation (input) SetAttrMask_MTIME_SET :: u32 where "SetAttrMask_MTIME_SET \<equiv> 0x00000100"

definition SetAttrMask_flags :: "u32 list" where
  "SetAttrMask_flags =
     [SetAttrMask_MODE, SetAttrMask_UID, SetAttrMask_GID, SetAttrMask_SIZE, SetAttrMask_ATIME,
      SetAttrMask_MTIME, SetAttrMask_CTIME, SetAttrMask_ATIME_SET, SetAttrMask_MTIME_SET]"

section \<open>Structures\<close>

record QId =
  qid_typ :: u8
  qid_version :: u32
  qid_path :: u64

text \<open>\<^verbatim>\<open>size_of::<QIdType>() + size_of::<u32>() + size_of::<u64>()\<close>.\<close>

definition QId_size :: "QId \<Rightarrow> u32" where
  "QId_size q = word_of_nat (1 + 4 + 8)"

record StatFs =
  sfs_typ :: u32
  sfs_bsize :: u32
  sfs_blocks :: u64
  sfs_bfree :: u64
  sfs_bavail :: u64
  sfs_files :: u64
  sfs_ffree :: u64
  sfs_fsid :: u64
  sfs_namelen :: u32

record Time =
  time_sec :: u64
  time_nsec :: u64

record Stat =
  stat_mode :: u32
  stat_uid :: u32
  stat_gid :: u32
  stat_nlink :: u64
  stat_rdev :: u64
  stat_size :: u64
  stat_blksize :: u64
  stat_blocks :: u64
  stat_atime :: Time
  stat_mtime :: Time
  stat_ctime :: Time

record SetAttr =
  sattr_mode :: u32
  sattr_uid :: u32
  sattr_gid :: u32
  sattr_size :: u64
  sattr_atime :: Time
  sattr_mtime :: Time

record DirEntry =
  de_qid :: QId
  de_offset :: u64
  de_typ :: u8
  de_name :: rstring

definition DirEntry_size :: "DirEntry \<Rightarrow> u32" where
  "DirEntry_size e =
     word_of_nat (unat (QId_size (de_qid e)) + 8 + 1 + 2 + length (de_name e))"

record DirEntryData =
  ded_data :: "DirEntry list"

definition DirEntryData_with :: "DirEntry list \<Rightarrow> DirEntryData" where
  "DirEntryData_with v = \<lparr>ded_data = v\<rparr>"

definition DirEntryData_new :: DirEntryData where
  "DirEntryData_new = DirEntryData_with []"

definition DirEntryData_default :: DirEntryData where
  "DirEntryData_default = DirEntryData_new"

text \<open>The sum is of \<^verbatim>\<open>u32\<close> values; it wraps as in a release build.\<close>

definition DirEntryData_size :: "DirEntryData \<Rightarrow> u32" where
  "DirEntryData_size d = foldl (\<lambda>a e. a + DirEntry_size e) 0 (ded_data d)"

definition DirEntryData_push :: "DirEntryData \<Rightarrow> DirEntry \<Rightarrow> DirEntryData" where
  "DirEntryData_push d e = d\<lparr>ded_data := ded_data d @ [e]\<rparr>"

datatype Data = Data bytes

record Flock =
  flock_typ :: u8
  flock_flags :: u32
  flock_start :: u64
  flock_length :: u64
  flock_proc_id :: u32
  flock_client_id :: rstring

record Getlock =
  glock_typ :: u8
  glock_start :: u64
  glock_length :: u64
  glock_proc_id :: u32
  glock_client_id :: rstring

section \<open>Message types\<close>

datatype (plugins only: code size) msg_type =
    MT_TlError | MT_RlError | MT_TStatFs | MT_RStatFs | MT_TlOpen | MT_RlOpen | MT_TlCreate
  | MT_RlCreate | MT_TSymlink | MT_RSymlink | MT_TMkNod | MT_RMkNod | MT_TRename
  | MT_RRename | MT_TReadLink | MT_RReadLink | MT_TGetAttr | MT_RGetAttr | MT_TSetAttr
  | MT_RSetAttr | MT_TxAttrWalk | MT_RxAttrWalk | MT_TxAttrCreate | MT_RxAttrCreate
  | MT_TReadDir | MT_RReadDir | MT_TFSync | MT_RFSync | MT_TLock | MT_RLock | MT_TGetLock
  | MT_RGetLock | MT_TLink | MT_RLink | MT_TMkDir | MT_RMkDir | MT_TRenameAt | MT_RRenameAt
  | MT_TUnlinkAt | MT_RUnlinkAt | MT_TVersion | MT_RVersion | MT_TAuth | MT_RAuth
  | MT_TAttach | MT_RAttach | MT_TFlush | MT_RFlush | MT_TWalk | MT_RWalk | MT_TRead
  | MT_RRead | MT_TWrite | MT_RWrite | MT_TClunk | MT_RClunk | MT_TRemove | MT_RRemove

text \<open>The discriminant, \<^verbatim>\<open>typ as u8\<close>.\<close>

primrec msg_type_code :: "msg_type \<Rightarrow> u8" where
  "msg_type_code MT_TlError = 6"
| "msg_type_code MT_RlError = 7"
| "msg_type_code MT_TStatFs = 8"
| "msg_type_code MT_RStatFs = 9"
| "msg_type_code MT_TlOpen = 12"
| "msg_type_code MT_RlOpen = 13"
| "msg_type_code MT_TlCreate = 14"
| "msg_type_code MT_RlCreate = 15"
| "msg_type_code MT_TSymlink = 16"
| "msg_type_code MT_RSymlink = 17"
| "msg_type_code MT_TMkNod = 18"
| "msg_type_code MT_RMkNod = 19"
| "msg_type_code MT_TRename = 20"
| "msg_type_code MT_RRename = 21"
| "msg_type_code MT_TReadLink = 22"
| "msg_type_code MT_RReadLink = 23"
| "msg_type_code MT_TGetAttr = 24"
| "msg_type_code MT_RGetAttr = 25"
| "msg_type_code MT_TSetAttr = 26"
| "msg_type_code MT_RSetAttr = 27"
| "msg_type_code MT_TxAttrWalk = 30"
| "msg_type_code MT_RxAttrWalk = 31"
| "msg_type_code MT_TxAttrCreate = 32"
| "msg_type_code MT_RxAttrCreate = 33"
| "msg_type_code MT_TReadDir = 40"
| "msg_type_code MT_RReadDir = 41"
| "msg_type_code MT_TFSync = 50"
| "msg_type_code MT_RFSync = 51"
| "msg_type_code MT_TLock = 52"
| "msg_type_code MT_RLock = 53"
| "msg_type_code MT_TGetLock = 54"
| "msg_type_code MT_RGetLock = 55"
| "msg_type_code MT_TLink = 70"
| "msg_type_code MT_RLink = 71"
| "msg_type_code MT_TMkDir = 72"
| "msg_type_code MT_RMkDir = 73"
| "msg_type_code MT_TRenameAt = 74"
| "msg_type_code MT_RRenameAt = 75"
| "msg_type_code MT_TUnlinkAt = 76"
| "msg_type_code MT_RUnlinkAt = 77"
| "msg_type_code MT_TVersion = 100"
| "msg_type_code MT_RVersion = 101"
| "msg_type_code MT_TAuth = 102"
| "msg_type_code MT_RAuth = 103"
| "msg_type_code MT_TAttach = 104"
| "msg_type_code MT_RAttach = 105"
| "msg_type_code MT_TFlush = 108"
| "msg_type_code MT_RFlush = 109"
| "msg_type_code MT_TWalk = 110"
| "msg_type_code MT_RWalk = 111"
| "msg_type_code MT_TRead = 116"
| "msg_type_code MT_RRead = 117"
| "msg_type_code MT_TWrite = 118"
| "msg_type_code MT_RWrite = 119"
| "msg_type_code MT_TClunk = 120"
| "msg_type_code MT_RClunk = 121"
| "msg_type_code MT_TRemove = 122"
| "msg_type_code MT_RRemove = 123"

primrec is_r :: "msg_type \<Rightarrow> bool" where
  "is_r MT_TlError = False"
| "is_r MT_RlError = True"
| "is_r MT_TStatFs = False"
| "is_r MT_RStatFs = True"
| "is_r MT_TlOpen = False"
| "is_r MT_RlOpen = True"
| "is_r MT_TlCreate = False"
| "is_r MT_RlCreate = True"
| "is_r MT_TSymlink = False"
| "is_r MT_RSymlink = True"
| "is_r MT_TMkNod = False"
| "is_r MT_RMkNod = True"
| "is_r MT_TRename = False"
| "is_r MT_RRename = True"
| "is_r MT_TReadLink = False"
| "is_r MT_RReadLink = True"
| "is_r MT_TGetAttr = False"
| "is_r MT_RGetAttr = True"
| "is_r MT_TSetAttr = False"
| "is_r MT_RSetAttr = True"
| "is_r MT_TxAttrWalk = False"
| "is_r MT_RxAttrWalk = True"
| "is_r MT_TxAttrCreate = False"
| "is_r MT_RxAttrCreate = True"
| "is_r MT_TReadDir = False"
| "is_r MT_RReadDir = True"
| "is_r MT_TFSync = False"
| "is_r MT_RFSync = True"
| "is_r MT_TLock = False"
| "is_r MT_RLock = True"
| "is_r MT_TGetLock = False"
| "is_r MT_RGetLock = True"
| "is_r MT_TLink = False"
| "is_r MT_RLink = True"
| "is_r MT_TMkDir = False"
| "is_r MT_RMkDir = True"
| "is_r MT_TRenameAt = False"
| "is_r MT_RRenameAt = True"
| "is_r MT_TUnlinkAt = False"
| "is_r MT_RUnlinkAt = True"
| "is_r MT_TVersion = False"
| "is_r MT_RVersion = True"
| "is_r MT_TAuth = False"
| "is_r MT_RAuth = True"
| "is_r MT_TAttach = False"
| "is_r MT_RAttach = True"
| "is_r MT_TFlush = False"
| "is_r MT_RFlush = True"
| "is_r MT_TWalk = False"
| "is_r MT_RWalk = True"
| "is_r MT_TRead = False"
| "is_r MT_RRead = True"
| "is_r MT_TWrite = False"
| "is_r MT_RWrite = True"
| "is_r MT_TClunk = False"
| "is_r MT_RClunk = True"
| "is_r MT_TRemove = False"
| "is_r MT_RRemove = True"

definition is_t :: "msg_type \<Rightarrow> bool" where
  "is_t m \<longleftrightarrow> \<not> is_r m"

section \<open>Message bodies\<close>

text \<open>
  The fields of each variant in the order of the source, named in the comment.
\<close>

datatype (plugins only: code size) fcall =
    RlError u32 \<comment> \<open>ecode\<close>
  | TStatFs u32 \<comment> \<open>fid\<close>
  | RStatFs StatFs \<comment> \<open>statfs\<close>
  | TlOpen u32 u32 \<comment> \<open>fid, flags\<close>
  | RlOpen QId u32 \<comment> \<open>qid, iounit\<close>
  | TlCreate u32 rstring u32 u32 u32 \<comment> \<open>fid, name, flags, mode, gid\<close>
  | RlCreate QId u32 \<comment> \<open>qid, iounit\<close>
  | TSymlink u32 rstring rstring u32 \<comment> \<open>fid, name, symtgt, gid\<close>
  | RSymlink QId \<comment> \<open>qid\<close>
  | TMkNod u32 rstring u32 u32 u32 u32 \<comment> \<open>dfid, name, mode, major, minor, gid\<close>
  | RMkNod QId \<comment> \<open>qid\<close>
  | TRename u32 u32 rstring \<comment> \<open>fid, dfid, name\<close>
  | RRename
  | TReadLink u32 \<comment> \<open>fid\<close>
  | RReadLink rstring \<comment> \<open>target\<close>
  | TGetAttr u32 u64 \<comment> \<open>fid, req_mask\<close>
  | RGetAttr u64 QId Stat \<comment> \<open>valid, qid, stat\<close>
  | TSetAttr u32 u32 SetAttr \<comment> \<open>fid, valid, stat\<close>
  | RSetAttr
  | TxAttrWalk u32 u32 rstring \<comment> \<open>fid, newfid, name\<close>
  | RxAttrWalk u64 \<comment> \<open>size\<close>
  | TxAttrCreate u32 rstring u64 u32 \<comment> \<open>fid, name, attr_size, flags\<close>
  | RxAttrCreate
  | TReadDir u32 u64 u32 \<comment> \<open>fid, offset, count\<close>
  | RReadDir DirEntryData \<comment> \<open>data\<close>
  | TFSync u32 \<comment> \<open>fid\<close>
  | RFSync
  | TLock u32 Flock \<comment> \<open>fid, flock\<close>
  | RLock u8 \<comment> \<open>status\<close>
  | TGetLock u32 Getlock \<comment> \<open>fid, flock\<close>
  | RGetLock Getlock \<comment> \<open>flock\<close>
  | TLink u32 u32 rstring \<comment> \<open>dfid, fid, name\<close>
  | RLink
  | TMkDir u32 rstring u32 u32 \<comment> \<open>dfid, name, mode, gid\<close>
  | RMkDir QId \<comment> \<open>qid\<close>
  | TRenameAt u32 rstring u32 rstring \<comment> \<open>olddirfid, oldname, newdirfid, newname\<close>
  | RRenameAt
  | TUnlinkAt u32 rstring u32 \<comment> \<open>dirfd, name, flags\<close>
  | RUnlinkAt
  | TAuth u32 rstring rstring u32 \<comment> \<open>afid, uname, aname, n_uname\<close>
  | RAuth QId \<comment> \<open>aqid\<close>
  | TAttach u32 u32 rstring rstring u32 \<comment> \<open>fid, afid, uname, aname, n_uname\<close>
  | RAttach QId \<comment> \<open>qid\<close>
  | TVersion u32 rstring \<comment> \<open>msize, version\<close>
  | RVersion u32 rstring \<comment> \<open>msize, version\<close>
  | TFlush u16 \<comment> \<open>oldtag\<close>
  | RFlush
  | TWalk u32 u32 "rstring list" \<comment> \<open>fid, newfid, wnames\<close>
  | RWalk "QId list" \<comment> \<open>wqids\<close>
  | TRead u32 u64 u32 \<comment> \<open>fid, offset, count\<close>
  | RRead Data \<comment> \<open>data\<close>
  | TWrite u32 u64 Data \<comment> \<open>fid, offset, data\<close>
  | RWrite u32 \<comment> \<open>count\<close>
  | TClunk u32 \<comment> \<open>fid\<close>
  | RClunk
  | TRemove u32 \<comment> \<open>fid\<close>
  | RRemove

primrec msg_type_of :: "fcall \<Rightarrow> msg_type" where
  "msg_type_of (RlError ecode) = MT_RlError"
| "msg_type_of (TStatFs fid) = MT_TStatFs"
| "msg_type_of (RStatFs statfs) = MT_RStatFs"
| "msg_type_of (TlOpen fid flags) = MT_TlOpen"
| "msg_type_of (RlOpen qid iounit) = MT_RlOpen"
| "msg_type_of (TlCreate fid name flags mode gid) = MT_TlCreate"
| "msg_type_of (RlCreate qid iounit) = MT_RlCreate"
| "msg_type_of (TSymlink fid name symtgt gid) = MT_TSymlink"
| "msg_type_of (RSymlink qid) = MT_RSymlink"
| "msg_type_of (TMkNod dfid name mode major minor gid) = MT_TMkNod"
| "msg_type_of (RMkNod qid) = MT_RMkNod"
| "msg_type_of (TRename fid dfid name) = MT_TRename"
| "msg_type_of RRename = MT_RRename"
| "msg_type_of (TReadLink fid) = MT_TReadLink"
| "msg_type_of (RReadLink target) = MT_RReadLink"
| "msg_type_of (TGetAttr fid req_mask) = MT_TGetAttr"
| "msg_type_of (RGetAttr valid qid stat) = MT_RGetAttr"
| "msg_type_of (TSetAttr fid valid stat) = MT_TSetAttr"
| "msg_type_of RSetAttr = MT_RSetAttr"
| "msg_type_of (TxAttrWalk fid newfid name) = MT_TxAttrWalk"
| "msg_type_of (RxAttrWalk sz) = MT_RxAttrWalk"
| "msg_type_of (TxAttrCreate fid name attr_size flags) = MT_TxAttrCreate"
| "msg_type_of RxAttrCreate = MT_RxAttrCreate"
| "msg_type_of (TReadDir fid offset count) = MT_TReadDir"
| "msg_type_of (RReadDir data) = MT_RReadDir"
| "msg_type_of (TFSync fid) = MT_TFSync"
| "msg_type_of RFSync = MT_RFSync"
| "msg_type_of (TLock fid flock) = MT_TLock"
| "msg_type_of (RLock status) = MT_RLock"
| "msg_type_of (TGetLock fid flock) = MT_TGetLock"
| "msg_type_of (RGetLock flock) = MT_RGetLock"
| "msg_type_of (TLink dfid fid name) = MT_TLink"
| "msg_type_of RLink = MT_RLink"
| "msg_type_of (TMkDir dfid name mode gid) = MT_TMkDir"
| "msg_type_of (RMkDir qid) = MT_RMkDir"
| "msg_type_of (TRenameAt olddirfid oldname newdirfid newname) = MT_TRenameAt"
| "msg_type_of RRenameAt = MT_RRenameAt"
| "msg_type_of (TUnlinkAt dirfd name flags) = MT_TUnlinkAt"
| "msg_type_of RUnlinkAt = MT_RUnlinkAt"
| "msg_type_of (TAuth afid uname aname n_uname) = MT_TAuth"
| "msg_type_of (RAuth aqid) = MT_RAuth"
| "msg_type_of (TAttach fid afid uname aname n_uname) = MT_TAttach"
| "msg_type_of (RAttach qid) = MT_RAttach"
| "msg_type_of (TVersion msize version) = MT_TVersion"
| "msg_type_of (RVersion msize version) = MT_RVersion"
| "msg_type_of (TFlush oldtag) = MT_TFlush"
| "msg_type_of RFlush = MT_RFlush"
| "msg_type_of (TWalk fid newfid wnames) = MT_TWalk"
| "msg_type_of (RWalk wqids) = MT_RWalk"
| "msg_type_of (TRead fid offset count) = MT_TRead"
| "msg_type_of (RRead data) = MT_RRead"
| "msg_type_of (TWrite fid offset data) = MT_TWrite"
| "msg_type_of (RWrite count) = MT_RWrite"
| "msg_type_of (TClunk fid) = MT_TClunk"
| "msg_type_of RClunk = MT_RClunk"
| "msg_type_of (TRemove fid) = MT_TRemove"
| "msg_type_of RRemove = MT_RRemove"

text \<open>The fids, the new fid and the qids a message carries.\<close>

definition fids_of :: "fcall \<Rightarrow> u32 list" where
  "fids_of m =
     (case m of
        TStatFs fid \<Rightarrow> [fid]
      | TlOpen fid flags \<Rightarrow> [fid]
      | TlCreate fid name flags mode gid \<Rightarrow> [fid]
      | TSymlink fid name symtgt gid \<Rightarrow> [fid]
      | TMkNod dfid name mode major minor gid \<Rightarrow> [dfid]
      | TRename fid dfid name \<Rightarrow> [fid, dfid]
      | TReadLink fid \<Rightarrow> [fid]
      | TGetAttr fid req_mask \<Rightarrow> [fid]
      | TSetAttr fid valid stat \<Rightarrow> [fid]
      | TxAttrWalk fid newfid name \<Rightarrow> [fid]
      | TxAttrCreate fid name attr_size flags \<Rightarrow> [fid]
      | TReadDir fid offset count \<Rightarrow> [fid]
      | TFSync fid \<Rightarrow> [fid]
      | TLock fid flock \<Rightarrow> [fid]
      | TGetLock fid flock \<Rightarrow> [fid]
      | TLink dfid fid name \<Rightarrow> [dfid, fid]
      | TMkDir dfid name mode gid \<Rightarrow> [dfid]
      | TRenameAt olddirfid oldname newdirfid newname \<Rightarrow> [olddirfid, newdirfid]
      | TUnlinkAt dirfd name flags \<Rightarrow> [dirfd]
      | TAttach fid afid uname aname n_uname \<Rightarrow> (if afid \<noteq> NOFID then [afid] else [])
      | TWalk fid newfid wnames \<Rightarrow> [fid]
      | TRead fid offset count \<Rightarrow> [fid]
      | TWrite fid offset data \<Rightarrow> [fid]
      | TClunk fid \<Rightarrow> [fid]
      | TRemove fid \<Rightarrow> [fid]
      | _ \<Rightarrow> [])"

definition newfid_of :: "fcall \<Rightarrow> u32 option" where
  "newfid_of m =
     (case m of
        TxAttrWalk fid newfid name \<Rightarrow> Some newfid
      | TAuth afid uname aname n_uname \<Rightarrow> Some afid
      | TAttach fid afid uname aname n_uname \<Rightarrow> Some fid
      | TWalk fid newfid wnames \<Rightarrow> Some newfid
      | _ \<Rightarrow> None)"

definition qids_of :: "fcall \<Rightarrow> QId list" where
  "qids_of m =
     (case m of
        RlOpen qid iounit \<Rightarrow> [qid]
      | RlCreate qid iounit \<Rightarrow> [qid]
      | RSymlink qid \<Rightarrow> [qid]
      | RMkNod qid \<Rightarrow> [qid]
      | RGetAttr valid qid stat \<Rightarrow> [qid]
      | RMkDir qid \<Rightarrow> [qid]
      | RAuth aqid \<Rightarrow> [aqid]
      | RAttach qid \<Rightarrow> [qid]
      | RWalk wqids \<Rightarrow> wqids
      | _ \<Rightarrow> [])"

record Msg =
  msg_tag :: u16
  msg_body :: fcall

section \<open>Facts about message types\<close>

text \<open>Every message type, in the order of the discriminants.\<close>

definition msg_types :: "msg_type list" where
  "msg_types =
     [MT_TlError, MT_RlError, MT_TStatFs, MT_RStatFs, MT_TlOpen, MT_RlOpen, MT_TlCreate,
      MT_RlCreate, MT_TSymlink, MT_RSymlink, MT_TMkNod, MT_RMkNod, MT_TRename, MT_RRename,
      MT_TReadLink, MT_RReadLink, MT_TGetAttr, MT_RGetAttr, MT_TSetAttr, MT_RSetAttr,
      MT_TxAttrWalk, MT_RxAttrWalk, MT_TxAttrCreate, MT_RxAttrCreate, MT_TReadDir,
      MT_RReadDir, MT_TFSync, MT_RFSync, MT_TLock, MT_RLock, MT_TGetLock, MT_RGetLock,
      MT_TLink, MT_RLink, MT_TMkDir, MT_RMkDir, MT_TRenameAt, MT_RRenameAt, MT_TUnlinkAt,
      MT_RUnlinkAt, MT_TVersion, MT_RVersion, MT_TAuth, MT_RAuth, MT_TAttach, MT_RAttach,
      MT_TFlush, MT_RFlush, MT_TWalk, MT_RWalk, MT_TRead, MT_RRead, MT_TWrite, MT_RWrite,
      MT_TClunk, MT_RClunk, MT_TRemove, MT_RRemove]"

lemma msg_types_all: "t \<in> set msg_types"
  by (cases t) (simp_all add: msg_types_def)

lemma msg_types_sorted: "sorted_wrt (<) (map (unat \<circ> msg_type_code) msg_types)"
  by (simp add: msg_types_def)

lemma msg_type_code_inj: "msg_type_code s = msg_type_code t \<Longrightarrow> s = t"
proof -
  assume "msg_type_code s = msg_type_code t"
  moreover have "distinct (map (unat \<circ> msg_type_code) msg_types)"
    using msg_types_sorted by (simp only: strict_sorted_iff)
  then have "inj_on (unat \<circ> msg_type_code) (set msg_types)"
    by (simp add: distinct_map)
  ultimately show "s = t"
    by (simp add: inj_on_def msg_types_all)
qed

text \<open>
  The order \<^verbatim>\<open>derive(PartialOrd, Ord)\<close> gives to the message types is that of their
  discriminants.
\<close>

instantiation msg_type :: linorder
begin

definition less_eq_msg_type :: "msg_type \<Rightarrow> msg_type \<Rightarrow> bool" where
  "s \<le> t \<longleftrightarrow> msg_type_code s \<le> msg_type_code t"

definition less_msg_type :: "msg_type \<Rightarrow> msg_type \<Rightarrow> bool" where
  "s < t \<longleftrightarrow> msg_type_code s < msg_type_code t"

instance
  by standard (auto simp: less_eq_msg_type_def less_msg_type_def intro: msg_type_code_inj)

end

lemma msg_type_code_eq [simp]: "msg_type_code s = msg_type_code t \<longleftrightarrow> s = t"
  by (blast intro: msg_type_code_inj)

lemma is_r_iff_odd: "is_r t \<longleftrightarrow> odd (unat (msg_type_code t))"
  by (cases t) simp_all

lemma msg_type_of_not_TlError [simp]: "msg_type_of m \<noteq> MT_TlError"
  by (cases m) simp_all

end
