(* ===== verification/Wire.thy ===== *)
theory Wire
  imports FCall
begin

unbundle bit_operations_syntax

text \<open>
  The 9P2000.L wire format as functions from values to bytes, the reference the
  serializer is compared with: little-endian integers, strings and lists behind a 16-bit
  count, data behind a 32-bit count, structures field by field, a message as its type, its
  tag and its fields. \<open>valid_\<dots>\<close> says which values the format can carry: strings and
  lists within their counts, strings in UTF-8, flags among the declared bits.
\<close>

section \<open>Integers, strings, lists\<close>

definition wire_u8 :: "u8 \<Rightarrow> bytes" where
  [wire_defs]: "wire_u8 v = le_bytes 1 (unat v)"

definition wire_u16 :: "u16 \<Rightarrow> bytes" where
  [wire_defs]: "wire_u16 v = le_bytes 2 (unat v)"

definition wire_u32 :: "u32 \<Rightarrow> bytes" where
  [wire_defs]: "wire_u32 v = le_bytes 4 (unat v)"

definition wire_u64 :: "u64 \<Rightarrow> bytes" where
  [wire_defs]: "wire_u64 v = le_bytes 8 (unat v)"

definition wire_String :: "rstring \<Rightarrow> bytes" where
  "wire_String s = wire_u16 (word_of_nat (length s)) @ s"

definition wire_Vec :: "('a \<Rightarrow> bytes) \<Rightarrow> 'a list \<Rightarrow> bytes" where
  "wire_Vec wire xs = wire_u16 (word_of_nat (length xs)) @ concat (map wire xs)"

primrec wire_Data :: "Data \<Rightarrow> bytes" where
  "wire_Data (Data b) = wire_u32 (word_of_nat (length b)) @ b"

section \<open>Structures\<close>

definition wire_QId :: "QId \<Rightarrow> bytes" where
  "wire_QId x =
     wire_u8 (qid_typ x) @ wire_u32 (qid_version x) @ wire_u64 (qid_path x)"

definition wire_StatFs :: "StatFs \<Rightarrow> bytes" where
  "wire_StatFs x =
     wire_u32 (sfs_typ x) @ wire_u32 (sfs_bsize x) @ wire_u64 (sfs_blocks x) @
     wire_u64 (sfs_bfree x) @ wire_u64 (sfs_bavail x) @ wire_u64 (sfs_files x) @
     wire_u64 (sfs_ffree x) @ wire_u64 (sfs_fsid x) @ wire_u32 (sfs_namelen x)"

definition wire_Time :: "Time \<Rightarrow> bytes" where
  "wire_Time x =
     wire_u64 (time_sec x) @ wire_u64 (time_nsec x)"

definition wire_Stat :: "Stat \<Rightarrow> bytes" where
  "wire_Stat x =
     wire_u32 (stat_mode x) @ wire_u32 (stat_uid x) @ wire_u32 (stat_gid x) @
     wire_u64 (stat_nlink x) @ wire_u64 (stat_rdev x) @ wire_u64 (stat_size x) @
     wire_u64 (stat_blksize x) @ wire_u64 (stat_blocks x) @ wire_Time (stat_atime x) @
     wire_Time (stat_mtime x) @ wire_Time (stat_ctime x)"

definition wire_SetAttr :: "SetAttr \<Rightarrow> bytes" where
  "wire_SetAttr x =
     wire_u32 (sattr_mode x) @ wire_u32 (sattr_uid x) @ wire_u32 (sattr_gid x) @
     wire_u64 (sattr_size x) @ wire_Time (sattr_atime x) @ wire_Time (sattr_mtime x)"

definition wire_DirEntry :: "DirEntry \<Rightarrow> bytes" where
  "wire_DirEntry x =
     wire_QId (de_qid x) @ wire_u64 (de_offset x) @ wire_u8 (de_typ x) @
     wire_String (de_name x)"

definition wire_Flock :: "Flock \<Rightarrow> bytes" where
  "wire_Flock x =
     wire_u8 (flock_typ x) @ wire_u32 (flock_flags x) @ wire_u64 (flock_start x) @
     wire_u64 (flock_length x) @ wire_u32 (flock_proc_id x) @
     wire_String (flock_client_id x)"

definition wire_Getlock :: "Getlock \<Rightarrow> bytes" where
  "wire_Getlock x =
     wire_u8 (glock_typ x) @ wire_u64 (glock_start x) @ wire_u64 (glock_length x) @
     wire_u32 (glock_proc_id x) @ wire_String (glock_client_id x)"

text \<open>The entries of a directory stand behind the number of bytes they take.\<close>

definition listing_bytes :: "DirEntryData \<Rightarrow> nat" where
  "listing_bytes d = length (concat (map wire_DirEntry (ded_data d)))"

definition wire_DirEntryData :: "DirEntryData \<Rightarrow> bytes" where
  "wire_DirEntryData d =
     wire_u32 (word_of_nat (listing_bytes d)) @ concat (map wire_DirEntry (ded_data d))"

lemma length_wire_ints [simp]:
  "length (wire_u8 a) = 1" "length (wire_u16 b) = 2" "length (wire_u32 c) = 4" "length (wire_u64 d) = 8"
  by (simp_all add: wire_defs)

lemma length_wire_DirEntry: "length (wire_DirEntry e) = 24 + length (de_name e)"
  by (simp add: wire_DirEntry_def wire_QId_def wire_String_def)

lemma listing_bytes_ge: "24 * length (ded_data d) \<le> listing_bytes d"
proof -
  have "24 * length es \<le> length (concat (map wire_DirEntry es))" for es
    by (induction es) (simp_all add: length_wire_DirEntry)
  then show ?thesis by (simp only: listing_bytes_def)
qed

text \<open>The sizes the program computes are the numbers of bytes on the wire, modulo \<open>2 ^ 32\<close>.\<close>

lemma DirEntry_size_wire: "DirEntry_size e = word_of_nat (length (wire_DirEntry e))"
  by (simp add: DirEntry_size_def QId_size_def length_wire_DirEntry)

lemma DirEntryData_size_wire: "DirEntryData_size d = word_of_nat (listing_bytes d)"
proof -
  have "foldl (\<lambda>a e. a + DirEntry_size e) b es = b + word_of_nat (length (concat (map wire_DirEntry es)))" for b es
    by (induction es arbitrary: b) (simp_all add: DirEntry_size_wire)
  then show ?thesis by (simp add: DirEntryData_size_def listing_bytes_def del: length_concat)
qed

section \<open>Messages\<close>

primrec wire_body :: "fcall \<Rightarrow> bytes" where
  "wire_body (RlError ecode) = wire_u32 ecode"
| "wire_body (TStatFs fid) = wire_u32 fid"
| "wire_body (RStatFs statfs) = wire_StatFs statfs"
| "wire_body (TlOpen fid flags) = wire_u32 fid @ wire_u32 flags"
| "wire_body (RlOpen qid iounit) = wire_QId qid @ wire_u32 iounit"
| "wire_body (TlCreate fid name flags mode gid) =
     wire_u32 fid @ wire_String name @ wire_u32 flags @ wire_u32 mode @ wire_u32 gid"
| "wire_body (RlCreate qid iounit) = wire_QId qid @ wire_u32 iounit"
| "wire_body (TSymlink fid name symtgt gid) =
     wire_u32 fid @ wire_String name @ wire_String symtgt @ wire_u32 gid"
| "wire_body (RSymlink qid) = wire_QId qid"
| "wire_body (TMkNod dfid name mode major minor gid) =
     wire_u32 dfid @ wire_String name @ wire_u32 mode @ wire_u32 major @ wire_u32 minor @
     wire_u32 gid"
| "wire_body (RMkNod qid) = wire_QId qid"
| "wire_body (TRename fid dfid name) = wire_u32 fid @ wire_u32 dfid @ wire_String name"
| "wire_body RRename = []"
| "wire_body (TReadLink fid) = wire_u32 fid"
| "wire_body (RReadLink target) = wire_String target"
| "wire_body (TGetAttr fid req_mask) = wire_u32 fid @ wire_u64 req_mask"
| "wire_body (RGetAttr valid qid stat) =
     wire_u64 valid @ wire_QId qid @ wire_Stat stat @ wire_u64 0 @ wire_u64 0 @ wire_u64 0 @
     wire_u64 0"
| "wire_body (TSetAttr fid valid stat) = wire_u32 fid @ wire_u32 valid @ wire_SetAttr stat"
| "wire_body RSetAttr = []"
| "wire_body (TxAttrWalk fid newfid name) = wire_u32 fid @ wire_u32 newfid @ wire_String name"
| "wire_body (RxAttrWalk sz) = wire_u64 sz"
| "wire_body (TxAttrCreate fid name attr_size flags) =
     wire_u32 fid @ wire_String name @ wire_u64 attr_size @ wire_u32 flags"
| "wire_body RxAttrCreate = []"
| "wire_body (TReadDir fid offset count) = wire_u32 fid @ wire_u64 offset @ wire_u32 count"
| "wire_body (RReadDir data) = wire_DirEntryData data"
| "wire_body (TFSync fid) = wire_u32 fid"
| "wire_body RFSync = []"
| "wire_body (TLock fid flock) = wire_u32 fid @ wire_Flock flock"
| "wire_body (RLock status) = wire_u8 status"
| "wire_body (TGetLock fid flock) = wire_u32 fid @ wire_Getlock flock"
| "wire_body (RGetLock flock) = wire_Getlock flock"
| "wire_body (TLink dfid fid name) = wire_u32 dfid @ wire_u32 fid @ wire_String name"
| "wire_body RLink = []"
| "wire_body (TMkDir dfid name mode gid) =
     wire_u32 dfid @ wire_String name @ wire_u32 mode @ wire_u32 gid"
| "wire_body (RMkDir qid) = wire_QId qid"
| "wire_body (TRenameAt olddirfid oldname newdirfid newname) =
     wire_u32 olddirfid @ wire_String oldname @ wire_u32 newdirfid @ wire_String newname"
| "wire_body RRenameAt = []"
| "wire_body (TUnlinkAt dirfd name flags) =
     wire_u32 dirfd @ wire_String name @ wire_u32 flags"
| "wire_body RUnlinkAt = []"
| "wire_body (TAuth afid uname aname n_uname) =
     wire_u32 afid @ wire_String uname @ wire_String aname @ wire_u32 n_uname"
| "wire_body (RAuth aqid) = wire_QId aqid"
| "wire_body (TAttach fid afid uname aname n_uname) =
     wire_u32 fid @ wire_u32 afid @ wire_String uname @ wire_String aname @ wire_u32 n_uname"
| "wire_body (RAttach qid) = wire_QId qid"
| "wire_body (TVersion msize version) = wire_u32 msize @ wire_String version"
| "wire_body (RVersion msize version) = wire_u32 msize @ wire_String version"
| "wire_body (TFlush oldtag) = wire_u16 oldtag"
| "wire_body RFlush = []"
| "wire_body (TWalk fid newfid wnames) =
     wire_u32 fid @ wire_u32 newfid @ wire_Vec wire_String wnames"
| "wire_body (RWalk wqids) = wire_Vec wire_QId wqids"
| "wire_body (TRead fid offset count) = wire_u32 fid @ wire_u64 offset @ wire_u32 count"
| "wire_body (RRead data) = wire_Data data"
| "wire_body (TWrite fid offset data) = wire_u32 fid @ wire_u64 offset @ wire_Data data"
| "wire_body (RWrite count) = wire_u32 count"
| "wire_body (TClunk fid) = wire_u32 fid"
| "wire_body RClunk = []"
| "wire_body (TRemove fid) = wire_u32 fid"
| "wire_body RRemove = []"

definition wire_Msg :: "Msg \<Rightarrow> bytes" where
  "wire_Msg m =
     wire_u8 (msg_type_code (msg_type_of (msg_body m))) @ wire_u16 (msg_tag m) @
     wire_body (msg_body m)"

section \<open>Values the format can carry\<close>

definition bits_ok :: "'a::len word list \<Rightarrow> 'a word \<Rightarrow> bool" where
  "bits_ok fs b \<longleftrightarrow> b AND all_bits fs = b"

definition valid_String :: "rstring \<Rightarrow> bool" where
  "valid_String s \<longleftrightarrow> utf8_valid s \<and> length s < 2 ^ 16"

definition valid_Vec :: "('a \<Rightarrow> bool) \<Rightarrow> 'a list \<Rightarrow> bool" where
  "valid_Vec valid xs \<longleftrightarrow> length xs < 2 ^ 16 \<and> list_all valid xs"

primrec valid_Data :: "Data \<Rightarrow> bool" where
  "valid_Data (Data b) \<longleftrightarrow> length b < 2 ^ 32"

definition valid_QId :: "QId \<Rightarrow> bool" where
  "valid_QId x \<longleftrightarrow> bits_ok QIdType_flags (qid_typ x)"

definition valid_DirEntry :: "DirEntry \<Rightarrow> bool" where
  "valid_DirEntry x \<longleftrightarrow> valid_QId (de_qid x) \<and> valid_String (de_name x)"

definition valid_Flock :: "Flock \<Rightarrow> bool" where
  "valid_Flock x \<longleftrightarrow> 
     bits_ok LockType_flags (flock_typ x) \<and>
     bits_ok LockFlag_flags (flock_flags x) \<and> valid_String (flock_client_id x)"

definition valid_Getlock :: "Getlock \<Rightarrow> bool" where
  "valid_Getlock x \<longleftrightarrow> 
     bits_ok LockType_flags (glock_typ x) \<and> valid_String (glock_client_id x)"

definition valid_DirEntryData :: "DirEntryData \<Rightarrow> bool" where
  "valid_DirEntryData d \<longleftrightarrow> length (ded_data d) < 2 ^ 32 \<and> list_all valid_DirEntry (ded_data d)"

primrec valid_fcall :: "fcall \<Rightarrow> bool" where
  "valid_fcall (RlError ecode) \<longleftrightarrow> True"
| "valid_fcall (TStatFs fid) \<longleftrightarrow> True"
| "valid_fcall (RStatFs statfs) \<longleftrightarrow> True"
| "valid_fcall (TlOpen fid flags) \<longleftrightarrow> True"
| "valid_fcall (RlOpen qid iounit) \<longleftrightarrow> valid_QId qid"
| "valid_fcall (TlCreate fid name flags mode gid) \<longleftrightarrow> valid_String name"
| "valid_fcall (RlCreate qid iounit) \<longleftrightarrow> valid_QId qid"
| "valid_fcall (TSymlink fid name symtgt gid) \<longleftrightarrow> valid_String name \<and> valid_String symtgt"
| "valid_fcall (RSymlink qid) \<longleftrightarrow> valid_QId qid"
| "valid_fcall (TMkNod dfid name mode major minor gid) \<longleftrightarrow> valid_String name"
| "valid_fcall (RMkNod qid) \<longleftrightarrow> valid_QId qid"
| "valid_fcall (TRename fid dfid name) \<longleftrightarrow> valid_String name"
| "valid_fcall RRename \<longleftrightarrow> True"
| "valid_fcall (TReadLink fid) \<longleftrightarrow> True"
| "valid_fcall (RReadLink target) \<longleftrightarrow> valid_String target"
| "valid_fcall (TGetAttr fid req_mask) \<longleftrightarrow> bits_ok GetAttrMask_flags req_mask"
| "valid_fcall (RGetAttr valid qid stat) \<longleftrightarrow> bits_ok GetAttrMask_flags valid \<and> valid_QId qid"
| "valid_fcall (TSetAttr fid valid stat) \<longleftrightarrow> bits_ok SetAttrMask_flags valid"
| "valid_fcall RSetAttr \<longleftrightarrow> True"
| "valid_fcall (TxAttrWalk fid newfid name) \<longleftrightarrow> valid_String name"
| "valid_fcall (RxAttrWalk sz) \<longleftrightarrow> True"
| "valid_fcall (TxAttrCreate fid name attr_size flags) \<longleftrightarrow> valid_String name"
| "valid_fcall RxAttrCreate \<longleftrightarrow> True"
| "valid_fcall (TReadDir fid offset count) \<longleftrightarrow> True"
| "valid_fcall (RReadDir data) \<longleftrightarrow> valid_DirEntryData data"
| "valid_fcall (TFSync fid) \<longleftrightarrow> True"
| "valid_fcall RFSync \<longleftrightarrow> True"
| "valid_fcall (TLock fid flock) \<longleftrightarrow> valid_Flock flock"
| "valid_fcall (RLock status) \<longleftrightarrow> bits_ok LockStatus_flags status"
| "valid_fcall (TGetLock fid flock) \<longleftrightarrow> valid_Getlock flock"
| "valid_fcall (RGetLock flock) \<longleftrightarrow> valid_Getlock flock"
| "valid_fcall (TLink dfid fid name) \<longleftrightarrow> valid_String name"
| "valid_fcall RLink \<longleftrightarrow> True"
| "valid_fcall (TMkDir dfid name mode gid) \<longleftrightarrow> valid_String name"
| "valid_fcall (RMkDir qid) \<longleftrightarrow> valid_QId qid"
| "valid_fcall (TRenameAt olddirfid oldname newdirfid newname) \<longleftrightarrow> valid_String oldname \<and> valid_String newname"
| "valid_fcall RRenameAt \<longleftrightarrow> True"
| "valid_fcall (TUnlinkAt dirfd name flags) \<longleftrightarrow> valid_String name"
| "valid_fcall RUnlinkAt \<longleftrightarrow> True"
| "valid_fcall (TAuth afid uname aname n_uname) \<longleftrightarrow> valid_String uname \<and> valid_String aname"
| "valid_fcall (RAuth aqid) \<longleftrightarrow> valid_QId aqid"
| "valid_fcall (TAttach fid afid uname aname n_uname) \<longleftrightarrow> valid_String uname \<and> valid_String aname"
| "valid_fcall (RAttach qid) \<longleftrightarrow> valid_QId qid"
| "valid_fcall (TVersion msize version) \<longleftrightarrow> valid_String version"
| "valid_fcall (RVersion msize version) \<longleftrightarrow> valid_String version"
| "valid_fcall (TFlush oldtag) \<longleftrightarrow> True"
| "valid_fcall RFlush \<longleftrightarrow> True"
| "valid_fcall (TWalk fid newfid wnames) \<longleftrightarrow> valid_Vec valid_String wnames"
| "valid_fcall (RWalk wqids) \<longleftrightarrow> valid_Vec valid_QId wqids"
| "valid_fcall (TRead fid offset count) \<longleftrightarrow> True"
| "valid_fcall (RRead data) \<longleftrightarrow> valid_Data data"
| "valid_fcall (TWrite fid offset data) \<longleftrightarrow> valid_Data data"
| "valid_fcall (RWrite count) \<longleftrightarrow> True"
| "valid_fcall (TClunk fid) \<longleftrightarrow> True"
| "valid_fcall RClunk \<longleftrightarrow> True"
| "valid_fcall (TRemove fid) \<longleftrightarrow> True"
| "valid_fcall RRemove \<longleftrightarrow> True"

text \<open>
  The bodies whose encoding the decoder reads back: the valid ones, but of the directory
  replies only the empty one (the two sides count entries differently, see
  \<open>Decode\<close>).
\<close>

definition empty_dir :: "fcall \<Rightarrow> bool" where
  "empty_dir m \<longleftrightarrow> (case m of RReadDir data \<Rightarrow> ded_data data = [] | _ \<Rightarrow> True)"

definition carried :: "Msg \<Rightarrow> bool" where
  "carried m \<longleftrightarrow> valid_fcall (msg_body m) \<and> empty_dir (msg_body m)"

end
