(* ===== verification/Legacy.thy ===== *)
theory Legacy
  imports Wire
begin

unbundle bit_operations_syntax

text \<open>
  What the crate still declares of the older protocol 9P2000: the module \<^verbatim>\<open>p92000\<close> of
  \<^verbatim>\<open>crates/rs9p/src/fcall.rs\<close> and the error strings of \<^verbatim>\<open>crates/rs9p/src/error.rs\<close>.
\<close>

section \<open>Open modes and mode bits\<close>

definition om_READ :: u8 where "om_READ = 0"
definition om_WRITE :: u8 where "om_WRITE = 1"
definition om_RDWR :: u8 where "om_RDWR = 2"
definition om_EXEC :: u8 where "om_EXEC = 3"
definition om_TRUNC :: u8 where "om_TRUNC = 16"
definition om_CEXEC :: u8 where "om_CEXEC = 32"
definition om_RCLOSE :: u8 where "om_RCLOSE = 64"

definition dm_DIR :: u32 where "dm_DIR = 0x80000000"
definition dm_APPEND :: u32 where "dm_APPEND = 0x40000000"
definition dm_EXCL :: u32 where "dm_EXCL = 0x20000000"
definition dm_MOUNT :: u32 where "dm_MOUNT = 0x10000000"
definition dm_AUTH :: u32 where "dm_AUTH = 0x08000000"
definition dm_TMP :: u32 where "dm_TMP = 0x04000000"
definition dm_READ :: u32 where "dm_READ = 0x4"
definition dm_WRITE :: u32 where "dm_WRITE = 0x2"
definition dm_EXEC :: u32 where "dm_EXEC = 0x1"

text \<open>The access modes are numbers, the other open modes bits besides them.\<close>

lemma open_modes:
  "distinct [om_READ, om_WRITE, om_RDWR, om_EXEC]"
  "(om_TRUNC OR om_CEXEC OR om_RCLOSE) AND om_EXEC = 0"
  by (simp_all add: om_READ_def om_WRITE_def om_RDWR_def om_EXEC_def om_TRUNC_def om_CEXEC_def
      om_RCLOSE_def)

section \<open>The metadata of a file\<close>

record OldStat =
  ostat_typ :: u16
  ostat_dev :: u32
  ostat_qid :: QId
  ostat_mode :: u32
  ostat_atime :: u32
  ostat_mtime :: u32
  ostat_length :: u64
  ostat_name :: rstring
  ostat_uid :: rstring
  ostat_gid :: rstring
  ostat_muid :: rstring

text \<open>
  \<^verbatim>\<open>size_of_val\<close> of the integers, and of a \<^verbatim>\<open>QId\<close> in memory: its 13 bytes, padded to the
  alignment of its 64-bit path.
\<close>

definition size_of_u16 :: nat where "size_of_u16 = 2"
definition size_of_u32 :: nat where "size_of_u32 = 4"
definition size_of_u64 :: nat where "size_of_u64 = 8"
definition size_of_QId :: nat where "size_of_QId = 16"

text \<open>The sum is a \<^verbatim>\<open>usize\<close>, cast to 16 bits at the end.\<close>

definition OldStat_size :: "OldStat \<Rightarrow> u16" where
  "OldStat_size st =
     word_of_nat
       (size_of_u16 + size_of_u32 + size_of_QId + size_of_u32 + size_of_u32 + size_of_u32 +
        size_of_u64 + size_of_u16 * 4 + length (ostat_name st) + length (ostat_uid st) +
        length (ostat_gid st) + length (ostat_muid st))"

text \<open>
  The format of 9P2000: the same fields, behind a count of 16 bits that does not count
  itself.
\<close>

definition wire_OldStat :: "OldStat \<Rightarrow> bytes" where
  "wire_OldStat st =
     wire_u16 (ostat_typ st) @ wire_u32 (ostat_dev st) @ wire_QId (ostat_qid st) @
     wire_u32 (ostat_mode st) @ wire_u32 (ostat_atime st) @ wire_u32 (ostat_mtime st) @
     wire_u64 (ostat_length st) @ wire_String (ostat_name st) @ wire_String (ostat_uid st) @
     wire_String (ostat_gid st) @ wire_String (ostat_muid st)"

text \<open>
  The size of an old \<^verbatim>\<open>Stat\<close> is not the number of bytes its fields take in a message:
  it counts the padding of a qid in memory, three bytes too many, and is cut to 16 bits.
\<close>

lemma old_stat_size_counts_padding:
  "unat (OldStat_size st) = (length (wire_OldStat st) + 3) mod 2 ^ 16"
proof -
  have "length (wire_OldStat st) + 3 =
      50 + length (ostat_name st) + length (ostat_uid st) + length (ostat_gid st) + length (ostat_muid st)"
    by (simp add: wire_OldStat_def wire_QId_def wire_String_def wire_defs)
  then have "OldStat_size st = word_of_nat (length (wire_OldStat st) + 3)"
    by (simp add: OldStat_size_def size_of_u16_def size_of_u32_def size_of_u64_def size_of_QId_def)
  then show ?thesis by (simp only: unat_of_nat len_of_numeral_defs) simp
qed

section \<open>Error strings\<close>

text \<open>The constants of the module \<^verbatim>\<open>string\<close>, by name, in the order of the source.\<close>

definition error_strings :: "(string \<times> string) list" where
  "error_strings =
     [(''EPERM'', ''Operation not permitted''),
      (''EPERM_WSTAT'', ''wstat prohibited''),
      (''ENOENT'', ''No such file or directory''),
      (''ENOENT_DIR'', ''directory entry not found''),
      (''ENOENT_FILE'', ''file not found''),
      (''EINTR'', ''Interrupted system call''),
      (''EIO'', ''Input/output error''),
      (''ENXIO'', ''No such device or address''),
      (''E2BIG'', ''Argument list too long''),
      (''EBADF'', ''Bad file descriptor''),
      (''EAGAIN'', ''Resource temporarily unavailable''),
      (''ENOMEM'', ''Cannot allocate memory''),
      (''EACCES'', ''Permission denied''),
      (''EFAULT'', ''Bad address''),
      (''ENOTBLK'', ''Block device required''),
      (''EBUSY'', ''Device or resource busy''),
      (''EEXIST'', ''File exists''),
      (''EXDEV'', ''Invalid cross-device link''),
      (''ENODEV'', ''No such device''),
      (''ENOTDIR'', ''Not a directory''),
      (''EISDIR'', ''Is a directory''),
      (''EINVAL'', ''Invalid argument''),
      (''ENFILE'', ''Too many open files in system''),
      (''EMFILE'', ''Too many open files''),
      (''ETXTBSY'', ''Text file busy''),
      (''EFBIG'', ''File too large''),
      (''ENOSPC'', ''No space left on device''),
      (''ESPIPE'', ''Illegal seek''),
      (''EROFS'', ''Read-only file system''),
      (''EMLINK'', ''Too many links''),
      (''EPIPE'', ''Broken pipe''),
      (''EDOM'', ''Numerical argument out of domain''),
      (''ERANGE'', ''Numerical result out of range''),
      (''EDEADLK'', ''Resource deadlock avoided''),
      (''ENAMETOOLONG'', ''File name too long''),
      (''ENOLCK'', ''No locks available''),
      (''ENOSYS'', ''Function not implemented''),
      (''ENOTEMPTY'', ''Directory not empty''),
      (''ELOOP'', ''Too many levels of symbolic links''),
      (''ENOMSG'', ''No message of desired type''),
      (''EIDRM'', ''Identifier removed''),
      (''ENODATA'', ''No data available''),
      (''ENONET'', ''Machine is not on the network''),
      (''ENOPKG'', ''Package not installed''),
      (''EREMOTE'', ''Object is remote''),
      (''ENOLINK'', ''Link has been severed''),
      (''ECOMM'', ''Communication error on send''),
      (''EPROTO'', ''Protocol error''),
      (''EBADMSG'', ''Bad message''),
      (''EBADFD'', ''File descriptor in bad state''),
      (''ESTRPIPE'', ''Streams pipe error''),
      (''EUSERS'', ''Too many users''),
      (''ENOTSOCK'', ''Socket operation on non-socket''),
      (''EMSGSIZE'', ''Message too long''),
      (''ENOPROTOOPT'', ''Protocol not available''),
      (''EPROTONOSUPPORT'', ''Protocol not supported''),
      (''ESOCKTNOSUPPORT'', ''Socket type not supported''),
      (''EOPNOTSUPP'', ''Operation not supported''),
      (''EPFNOSUPPORT'', ''Protocol family not supported''),
      (''ENETDOWN'', ''Network is down''),
      (''ENETUNREACH'', ''Network is unreachable''),
      (''ENETRESET'', ''Network dropped connection on reset''),
      (''ECONNABORTED'', ''Software caused connection abort''),
      (''ECONNRESET'', ''Connection reset by peer''),
      (''ENOBUFS'', ''No buffer space available''),
      (''EISCONN'', ''Transport endpoint is already connected''),
      (''ENOTCONN'', ''Transport endpoint is not connected''),
      (''ESHUTDOWN'', ''Cannot send after transport endpoint shutdown''),
      (''ETIMEDOUT'', ''Connection timed out''),
      (''ECONNREFUSED'', ''Connection refused''),
      (''EHOSTDOWN'', ''Host is down''),
      (''EHOSTUNREACH'', ''No route to host''),
      (''EALREADY'', ''Operation already in progress''),
      (''EINPROGRESS'', ''Operation now in progress''),
      (''EISNAM'', ''Is a named type file''),
      (''EREMOTEIO'', ''Remote I/O error''),
      (''EDQUOT'', ''Disk quota exceeded''),
      (''EBADF2'', ''fid unknown or out of range''),
      (''EACCES2'', ''permission denied''),
      (''ENOENT_FILE2'', ''file does not exist''),
      (''ECONNREFUSED2'', ''authentication failed''),
      (''ESPIPE2'', ''bad offset in directory read''),
      (''EBADF3'', ''bad use of fid''),
      (''EPERM_CONV'', ''wstat can't convert between files and directories''),
      (''ENOTEMPTY2'', ''directory is not empty''),
      (''EEXIST2'', ''file exists''),
      (''EEXIST3'', ''file already exists''),
      (''EEXIST4'', ''file or directory already exists''),
      (''EBADF4'', ''fid already in use''),
      (''ETXTBSY2'', ''file in use''),
      (''EIO2'', ''i/o error''),
      (''ETXTBSY3'', ''file already open for I/O''),
      (''EINVAL2'', ''illegal mode''),
      (''ENAMETOOLONG2'', ''illegal name''),
      (''ENOTDIR2'', ''not a directory''),
      (''EPERM_GRP'', ''not a member of proposed group''),
      (''EACCES3'', ''not owner''),
      (''EACCES4'', ''only owner can change group in wstat''),
      (''EROFS2'', ''read only file system''),
      (''EPERM_SPFILE'', ''no access to special file''),
      (''EIO3'', ''i/o count too large''),
      (''EINVAL3'', ''unknown group''),
      (''EINVAL4'', ''unknown user''),
      (''EPROTO2'', ''bogus wstat buffer''),
      (''EAGAIN2'', ''exclusive use file already open''),
      (''EIO4'', ''corrupted directory entry''),
      (''EIO5'', ''corrupted file entry''),
      (''EIO6'', ''corrupted block label''),
      (''EIO7'', ''corrupted meta data''),
      (''EINVAL5'', ''illegal offset''),
      (''ENOENT_PATH'', ''illegal path element''),
      (''EIO8'', ''root of file system is corrupted''),
      (''EIO9'', ''corrupted super block''),
      (''EPROTO3'', ''protocol botch''),
      (''ENOSPC2'', ''file system is full''),
      (''EAGAIN3'', ''file is in use''),
      (''ENOENT_ALLOC'', ''directory entry is not allocated''),
      (''EROFS3'', ''file is read only''),
      (''EIDRM2'', ''file has been removed''),
      (''EPERM_TRUNCATE'', ''only support truncation to zero length''),
      (''EPERM_RMROOT'', ''cannot remove root''),
      (''EFBIG2'', ''file too big''),
      (''EIO10'', ''venti i/o error'')]"

definition error_string :: "string \<Rightarrow> string option" where
  "error_string name = map_of error_strings name"

text \<open>Each text is ASCII, and short enough for the string of an error message.\<close>

lemma error_strings_ascii:
  "list_all (\<lambda>(name, t). list_all (\<lambda>c. \<not> digit7 c) t \<and> length t < 64) error_strings"
  unfolding error_strings_def by code_simp

end
