(* ===== verification/Crates.thy ===== *)
theory Crates
  imports FCall
begin

unbundle bit_operations_syntax

text \<open>
  The third-party code the serializer calls, as parameters: the byte order of the crate
  \<^verbatim>\<open>byteorder\<close>, \<^verbatim>\<open>from_bits_truncate\<close> of the types made by \<^verbatim>\<open>bitflags!\<close> and
  \<^verbatim>\<open>FromPrimitive::from_u8\<close> made by \<^verbatim>\<open>enum_from_primitive!\<close>. The locale
  \<open>crates_laws\<close> states what their documentation promises; \<open>documented_crates\<close> are the
  functions the documentation describes, and they satisfy it.
\<close>

record crates =
  put_u8 :: "u8 \<Rightarrow> bytes"    \<comment> \<open>the bytes \<^verbatim>\<open>write_u8\<close> hands to \<^verbatim>\<open>write_all\<close>\<close>
  put_u16 :: "u16 \<Rightarrow> bytes"  \<comment> \<open>\<^verbatim>\<open>write_u16::<LittleEndian>\<close>\<close>
  put_u32 :: "u32 \<Rightarrow> bytes"  \<comment> \<open>\<^verbatim>\<open>write_u32::<LittleEndian>\<close>\<close>
  put_u64 :: "u64 \<Rightarrow> bytes"  \<comment> \<open>\<^verbatim>\<open>write_u64::<LittleEndian>\<close>\<close>
  get_u8 :: "bytes \<Rightarrow> u8"    \<comment> \<open>what \<^verbatim>\<open>read_u8\<close> makes of the byte it reads\<close>
  get_u16 :: "bytes \<Rightarrow> u16"  \<comment> \<open>\<^verbatim>\<open>read_u16::<LittleEndian>\<close>\<close>
  get_u32 :: "bytes \<Rightarrow> u32"  \<comment> \<open>\<^verbatim>\<open>read_u32::<LittleEndian>\<close>\<close>
  get_u64 :: "bytes \<Rightarrow> u64"  \<comment> \<open>\<^verbatim>\<open>read_u64::<LittleEndian>\<close>\<close>
  truncate_u8 :: "u8 list \<Rightarrow> u8 \<Rightarrow> u8"      \<comment> \<open>\<^verbatim>\<open>from_bits_truncate\<close> of a type with these flags\<close>
  truncate_u32 :: "u32 list \<Rightarrow> u32 \<Rightarrow> u32"
  truncate_u64 :: "u64 list \<Rightarrow> u64 \<Rightarrow> u64"
  msg_type_from_u8 :: "u8 \<Rightarrow> msg_type option"

locale crates_laws =
  fixes C :: crates
  assumes put_u8: "put_u8 C v8 = le_bytes 1 (unat v8)"
    and put_u16: "put_u16 C v16 = le_bytes 2 (unat v16)"
    and put_u32: "put_u32 C v32 = le_bytes 4 (unat v32)"
    and put_u64: "put_u64 C v64 = le_bytes 8 (unat v64)"
    and get_u8: "length bs = 1 \<Longrightarrow> get_u8 C bs = word_of_nat (le_nat bs)"
    and get_u16: "length bs = 2 \<Longrightarrow> get_u16 C bs = word_of_nat (le_nat bs)"
    and get_u32: "length bs = 4 \<Longrightarrow> get_u32 C bs = word_of_nat (le_nat bs)"
    and get_u64: "length bs = 8 \<Longrightarrow> get_u64 C bs = word_of_nat (le_nat bs)"
    and truncate_u8: "truncate_u8 C fs8 v8 = v8 AND all_bits fs8"
    and truncate_u32: "truncate_u32 C fs32 v32 = v32 AND all_bits fs32"
    and truncate_u64: "truncate_u64 C fs64 v64 = v64 AND all_bits fs64"
    and msg_type_from_u8: "msg_type_from_u8 C v8 = Some t \<longleftrightarrow> msg_type_code t = v8"

definition documented_crates :: crates where
  "documented_crates =
     \<lparr>put_u8 = (\<lambda>v. le_bytes 1 (unat v)),
      put_u16 = (\<lambda>v. le_bytes 2 (unat v)),
      put_u32 = (\<lambda>v. le_bytes 4 (unat v)),
      put_u64 = (\<lambda>v. le_bytes 8 (unat v)),
      get_u8 = (\<lambda>bs. word_of_nat (le_nat bs)),
      get_u16 = (\<lambda>bs. word_of_nat (le_nat bs)),
      get_u32 = (\<lambda>bs. word_of_nat (le_nat bs)),
      get_u64 = (\<lambda>bs. word_of_nat (le_nat bs)),
      truncate_u8 = (\<lambda>fs v. v AND all_bits fs),
      truncate_u32 = (\<lambda>fs v. v AND all_bits fs),
      truncate_u64 = (\<lambda>fs v. v AND all_bits fs),
      msg_type_from_u8 = (\<lambda>v. find (\<lambda>t. msg_type_code t = v) msg_types)\<rparr>"

lemma find_msg_type:
  "find (\<lambda>t. msg_type_code t = v) msg_types = Some t \<longleftrightarrow> msg_type_code t = v"
proof
  assume "find (\<lambda>t. msg_type_code t = v) msg_types = Some t"
  then show "msg_type_code t = v" by (auto simp: find_Some_iff)
next
  assume t: "msg_type_code t = v"
  then have "find (\<lambda>t. msg_type_code t = v) msg_types \<noteq> None"
    using msg_types_all [of t] by (auto simp: find_None_iff)
  then obtain u where u: "find (\<lambda>t. msg_type_code t = v) msg_types = Some u" by blast
  then have "msg_type_code u = v" by (auto simp: find_Some_iff)
  with t have "u = t" by (simp flip: t)
  with u show "find (\<lambda>t. msg_type_code t = v) msg_types = Some t" by simp
qed

lemma documented_crates_laws: "crates_laws documented_crates"
  by unfold_locales (simp_all add: documented_crates_def find_msg_type)

interpretation documented: crates_laws documented_crates
  by (rule documented_crates_laws)

end
