(* ===== verification/Interface.thy ===== *)
theory Interface
  imports Prelude
begin

text \<open>
  The traits \<^verbatim>\<open>Encodable\<close> and \<^verbatim>\<open>Decodable\<close> of \<^verbatim>\<open>crates/rs9p/src/serialize.rs\<close> as
  interfaces. An encoder owes its caller what the trait documents: it writes the bytes
  of the value and returns their number. A decoder is a parser: what it returns depends
  on the bytes it consumed and on nothing after them. A codec pairs the two with the
  round trip. The lemmas about lists of values, cut-off input and the injectivity of the
  encoding are proved here once, for every type of the protocol.
\<close>

section \<open>The operator of the encoder\<close>

text \<open>
  An \<^verbatim>\<open>Encoder\<close> is the writer (the state) and the count of bytes written (the
  result); \<^verbatim>\<open>SResult(Err(e))\<close> is the error result. \<open>shl\<close> is the operator \<^verbatim>\<open><<\<close> on
  either of them.
\<close>

definition encoder_new :: "nat writing" where
  "encoder_new = ok 0"

definition shl :: "nat writing \<Rightarrow> nat writing \<Rightarrow> nat writing" where
  "shl enc data = and_then enc (\<lambda>bytes. and_then data (\<lambda>n. ok (bytes + n)))"

definition encoder_chain :: "nat writing list \<Rightarrow> nat writing" where
  "encoder_chain es = foldl shl encoder_new es"

lemma encoder_new_emit: "encoder_new = emit []"
  by (simp add: encoder_new_def emit_def)

lemma shl_emit: "shl (emit a) (emit b) = emit (a @ b)"
proof -
  have "shl (emit a) (emit b) =
      and_then (and_then (write_all a) (\<lambda>_. write_all b)) (\<lambda>_. ok (length a + length b))"
    by (simp add: shl_def emit_def and_then_assoc)
  then show ?thesis by (simp add: write_all_append emit_def)
qed

lemma foldl_shl_emit: "foldl shl (emit a) (map emit bss) = emit (a @ concat bss)"
  by (induction bss arbitrary: a) (simp_all add: shl_emit)

lemma encoder_chain_emit: "encoder_chain (map emit bss) = emit (concat bss)"
  by (simp add: encoder_chain_def encoder_new_emit foldl_shl_emit)

lemma emit_InrD:
  "emit bs w = (Inr n, w') \<Longrightarrow> n = length bs \<and> written w' = written w @ bs"
  by (auto simp: emit_def and_then_eq_Inr write_all_def split: option.splits if_splits)

section \<open>Parsers\<close>

text \<open>
  A result rests on a prefix of the input, whatever follows it; an error other than the
  end of the input stays when more bytes follow.
\<close>

definition parser :: "'a reader \<Rightarrow> bool" where
  "parser d \<longleftrightarrow>
     (\<forall>s x r. d s = (Inr x, r) \<longrightarrow> (\<exists>p. s = p @ r \<and> (\<forall>t. d (p @ t) = (Inr x, t)))) \<and>
     (\<forall>s e r t. d s = (Inl e, r) \<longrightarrow> e \<noteq> unexpected_eof \<longrightarrow> fst (d (s @ t)) = Inl e)"

lemma parser_InrE:
  assumes "parser d" and "d s = (Inr x, r)"
  obtains p where "s = p @ r" and "\<And>t. d (p @ t) = (Inr x, t)"
  using assms unfolding parser_def by blast

lemma parser_Inr_append: "parser d \<Longrightarrow> d s = (Inr x, r) \<Longrightarrow> d (s @ t) = (Inr x, r @ t)"
  by (erule (1) parser_InrE) simp

lemma parser_Inl_append:
  "parser d \<Longrightarrow> d s = (Inl e, r) \<Longrightarrow> e \<noteq> unexpected_eof \<Longrightarrow> fst (d (s @ t)) = Inl e"
  unfolding parser_def by blast

lemma parser_ok [parser_intros]: "parser (ok x)"
  by (simp add: parser_def)

lemma parser_fail [parser_intros]: "parser (fail e)"
  by (simp add: parser_def)

lemma parser_read_exact [parser_intros]: "parser (read_exact n)"
proof -
  have "\<exists>p. s = p @ r \<and> (\<forall>t. read_exact n (p @ t) = (Inr x, t))"
    if "read_exact n s = (Inr x, r)" for s x r
    using read_exact_InrD [OF that] by auto
  then show ?thesis by (auto simp: parser_def read_exact_def split: if_splits)
qed

lemma parser_and_then [parser_intros]:
  assumes "parser d" and "\<And>x. parser (k x)"
  shows "parser (and_then d k)"
  unfolding parser_def
proof (intro conjI allI impI)
  fix s y r
  assume "and_then d k s = (Inr y, r)"
  then obtain x m where d: "d s = (Inr x, m)" and k: "k x m = (Inr y, r)" by blast
  from assms(1) d obtain p where p: "s = p @ m" "\<And>t. d (p @ t) = (Inr x, t)"
    by (rule parser_InrE) blast
  from assms(2) k obtain q where q: "m = q @ r" "\<And>t. k x (q @ t) = (Inr y, t)"
    by (rule parser_InrE) blast
  have "and_then d k ((p @ q) @ t) = (Inr y, t)" for t
    by (simp add: p(2) q(2))
  with p(1) q(1) show "\<exists>p. s = p @ r \<and> (\<forall>t. and_then d k (p @ t) = (Inr y, t))"
    by (intro exI [of _ "p @ q"]) simp
next
  fix s e r t
  assume "and_then d k s = (Inl e, r)" and e: "e \<noteq> unexpected_eof"
  then consider "d s = (Inl e, r)" | x m where "d s = (Inr x, m)" "k x m = (Inl e, r)"
    by (auto simp: and_then_eq_Inl)
  then show "fst (and_then d k (s @ t)) = Inl e"
  proof cases
    case 1
    with assms(1) e have "fst (d (s @ t)) = Inl e" by (blast intro: parser_Inl_append)
    then show ?thesis by (cases "d (s @ t)") (simp add: and_then_def)
  next
    case 2
    with assms e show ?thesis by (simp add: parser_Inr_append parser_Inl_append)
  qed
qed

text \<open>The loop \<^verbatim>\<open>for _ in 0..len { buf.push(Decodable::decode(r)?) }\<close>.\<close>

primrec decode_loop :: "'a reader \<Rightarrow> nat \<Rightarrow> 'a list \<Rightarrow> 'a list reader" where
  "decode_loop d 0 buf = ok buf"
| "decode_loop d (Suc n) buf = and_then d (\<lambda>x. decode_loop d n (buf @ [x]))"

lemma parser_decode_loop [parser_intros]: "parser d \<Longrightarrow> parser (decode_loop d n buf)"
  by (induction n arbitrary: buf) (auto intro: parser_intros)

lemma decode_loop_length:
  "decode_loop d n buf s = (Inr xs, r) \<Longrightarrow> length xs = length buf + n"
  by (induction n arbitrary: buf s) (fastforce elim!: and_then_InrE)+

lemma decode_loop_all:
  assumes "\<And>s x r. d s = (Inr x, r) \<Longrightarrow> P x"
  shows "decode_loop d n buf s = (Inr xs, r) \<Longrightarrow> list_all P buf \<Longrightarrow> list_all P xs"
  by (induction n arbitrary: buf s) (auto elim!: and_then_InrE dest: assms)

text \<open>Once the values written are read, the loop goes on with what is left of the count.\<close>

lemma decode_loop_more:
  assumes "\<And>x r. x \<in> set xs \<Longrightarrow> d (wire x @ r) = (Inr x, r)"
  shows "decode_loop d (length xs + k) buf (concat (map wire xs) @ r) = decode_loop d k (buf @ xs) r"
  using assms by (induction xs arbitrary: buf) simp_all

text \<open>The errors a decoder can return.\<close>

definition fails_with :: "io_error set \<Rightarrow> 'a reader \<Rightarrow> bool" where
  "fails_with E d \<longleftrightarrow> (\<forall>s e r. d s = (Inl e, r) \<longrightarrow> e \<in> E)"

lemma fails_with_ok [error_intros]: "fails_with E (ok x)"
  by (simp add: fails_with_def)

lemma fails_with_fail [error_intros]: "e \<in> E \<Longrightarrow> fails_with E (fail e)"
  by (simp add: fails_with_def)

lemma fails_with_read_exact [error_intros]: "unexpected_eof \<in> E \<Longrightarrow> fails_with E (read_exact n)"
  by (simp add: fails_with_def read_exact_def)

lemma fails_with_and_then [error_intros]:
  "fails_with E d \<Longrightarrow> (\<And>x. fails_with E (k x)) \<Longrightarrow> fails_with E (and_then d k)"
  unfolding fails_with_def and_then_eq_Inl by blast

lemma fails_with_decode_loop [error_intros]: "fails_with E d \<Longrightarrow> fails_with E (decode_loop d n buf)"
  by (induction n arbitrary: buf) (auto intro: error_intros)

section \<open>Encodable, Decodable and their round trip\<close>

locale encodable =
  fixes enc :: "'a \<Rightarrow> nat writing"
    and wire :: "'a \<Rightarrow> bytes"
  assumes encode_emit: "enc x = emit (wire x)"
begin

text \<open>\<^verbatim>\<open>fold(Encoder::new(w) << ..., |acc, s| acc << s)\<close>.\<close>

lemma encode_fold:
  "foldl (\<lambda>acc s. shl acc (enc s)) (emit b) xs = emit (b @ concat (map wire xs))"
  by (induction xs arbitrary: b) (simp_all add: encode_emit shl_emit)

lemma encode_growing:
  "room w = None \<Longrightarrow>
     enc x w = (Inr (length (wire x)), w\<lparr>written := written w @ wire x\<rparr>)"
  by (simp add: encode_emit emit_growing)

lemma encode_fixed:
  assumes "room w = Some n"
  shows "enc x w =
    (if length (wire x) \<le> n
     then (Inr (length (wire x)), w\<lparr>written := written w @ wire x, room := Some (n - length (wire x))\<rparr>)
     else (Inl write_zero, w\<lparr>written := written w @ take n (wire x), room := Some 0\<rparr>))"
  using assms by (simp only: encode_emit emit_fixed)

lemma encode_counts:
  "enc x w = (Inr n, w') \<Longrightarrow> n = length (wire x) \<and> written w' = written w @ wire x"
  by (simp add: encode_emit emit_InrD)

end

locale decodable =
  fixes dec :: "'a reader"
  assumes decode_parser: "parser dec"
begin

lemma decode_consumes:
  assumes "dec s = (Inr x, r)"
  shows "\<exists>p. s = p @ r \<and> (\<forall>t. dec (p @ t) = (Inr x, t))"
  using decode_parser assms by (rule parser_InrE) blast

lemma decode_append: "dec s = (Inr x, r) \<Longrightarrow> dec (s @ t) = (Inr x, r @ t)"
  by (rule parser_Inr_append [OF decode_parser])

end

locale codec = encodable enc wire + decodable dec
  for enc :: "'a \<Rightarrow> nat writing" and wire :: "'a \<Rightarrow> bytes" and dec :: "'a reader" +
  fixes valid :: "'a \<Rightarrow> bool"
  assumes decode_wire: "valid x \<Longrightarrow> dec (wire x @ r) = (Inr x, r)"
begin

lemma decode_written:
  assumes "valid x" and "room w = None" and "written w = []" and "enc x w = (res, w')"
  shows "res = Inr (length (wire x))" and "dec (written w' @ r) = (Inr x, r)"
  using assms by (auto simp: encode_growing decode_wire)

text \<open>No encoding is a prefix of another: a stream of values is read back one way only.\<close>

lemma wire_prefix_free:
  assumes "valid x" and "valid y" and "wire x @ r = wire y @ s"
  shows "x = y" and "r = s"
proof -
  have "(Inr x, r) = dec (wire x @ r)" using assms(1) by (simp add: decode_wire)
  also have "\<dots> = dec (wire y @ s)" by (simp only: assms(3))
  also have "\<dots> = (Inr y, s)" using assms(2) by (simp add: decode_wire)
  finally have "(Inr x :: io_error + 'a, r) = (Inr y, s)" .
  then show "x = y" and "r = s" by simp_all
qed

text \<open>Input cut off inside a value is reported as the end of the input, nothing else.\<close>

lemma decode_cut_off:
  assumes "valid x" and "wire x = p @ q" and "q \<noteq> []"
  shows "fst (dec p) = Inl unexpected_eof"
proof (cases "dec p")
  case (Pair res r)
  have whole: "dec (p @ q) = (Inr x, [])"
    using decode_wire [OF assms(1), of "[]"] assms(2) by simp
  show ?thesis
  proof (cases res)
    case (Inl e)
    with Pair whole show ?thesis
      using parser_Inl_append [OF decode_parser, of p e r q] by auto
  next
    case (Inr y)
    with Pair have "dec (p @ q) = (Inr y, r @ q)" by (simp add: decode_append)
    with whole assms(3) show ?thesis by simp
  qed
qed

lemma decode_loop_wire:
  "list_all valid xs \<Longrightarrow>
     decode_loop dec (length xs) buf (concat (map wire xs) @ r) = (Inr (buf @ xs), r)"
  by (induction xs arbitrary: buf) (simp_all add: decode_wire)

end

text \<open>A codec whose decoder returns valid values only.\<close>

locale sound_codec = codec enc wire dec valid
  for enc :: "'a \<Rightarrow> nat writing" and wire dec valid +
  assumes decode_valid: "dec s = (Inr x, r) \<Longrightarrow> valid x"
begin

text \<open>Encoding what was decoded gives bytes that decode to the same value.\<close>

lemma decode_encode_decode: "dec s = (Inr x, r) \<Longrightarrow> dec (wire x @ t) = (Inr x, t)"
  by (blast intro: decode_wire decode_valid)

lemma decode_loop_valid:
  "decode_loop dec n [] s = (Inr xs, r) \<Longrightarrow> list_all valid xs"
  by (erule decode_loop_all [rotated]) (simp_all add: decode_valid)

end

end
