(* ===== verification/Encode.thy ===== *)
theory Encode
  imports Wire Crates Interface
begin

text \<open>
  The implementations of \<^verbatim>\<open>Encodable\<close> in \<^verbatim>\<open>crates/rs9p/src/serialize.rs\<close>, each the
  chain of operators \<^verbatim>\<open><<\<close> of the source, and the proof that every one of them emits the
  bytes of the wire format. \<open>C\<close> stands for the third-party crates.
\<close>

section \<open>The implementations\<close>

definition encode_u8 :: "crates \<Rightarrow> u8 \<Rightarrow> nat writing" where
  "encode_u8 C v = and_then (write_all (put_u8 C v)) (\<lambda>_. ok 1)"

definition encode_u16 :: "crates \<Rightarrow> u16 \<Rightarrow> nat writing" where
  "encode_u16 C v = and_then (write_all (put_u16 C v)) (\<lambda>_. ok 2)"

definition encode_u32 :: "crates \<Rightarrow> u32 \<Rightarrow> nat writing" where
  "encode_u32 C v = and_then (write_all (put_u32 C v)) (\<lambda>_. ok 4)"

definition encode_u64 :: "crates \<Rightarrow> u64 \<Rightarrow> nat writing" where
  "encode_u64 C v = and_then (write_all (put_u64 C v)) (\<lambda>_. ok 8)"

definition encode_String :: "crates \<Rightarrow> rstring \<Rightarrow> nat writing" where
  "encode_String C s =
     and_then (encode_u16 C (word_of_nat (length s))) (\<lambda>bytes.
     and_then (and_then (write_all s) (\<lambda>_. ok (length s))) (\<lambda>n.
     ok (bytes + n)))"

definition encode_QId :: "crates \<Rightarrow> QId \<Rightarrow> nat writing" where
  "encode_QId C x =
     encoder_chain
       [encode_u8 C (qid_typ x), encode_u32 C (qid_version x), encode_u64 C (qid_path x)]"

definition encode_StatFs :: "crates \<Rightarrow> StatFs \<Rightarrow> nat writing" where
  "encode_StatFs C x =
     encoder_chain
       [encode_u32 C (sfs_typ x), encode_u32 C (sfs_bsize x), encode_u64 C (sfs_blocks x),
        encode_u64 C (sfs_bfree x), encode_u64 C (sfs_bavail x), encode_u64 C (sfs_files x),
        encode_u64 C (sfs_ffree x), encode_u64 C (sfs_fsid x), encode_u32 C (sfs_namelen x)]"

definition encode_Time :: "crates \<Rightarrow> Time \<Rightarrow> nat writing" where
  "encode_Time C x =
     encoder_chain
       [encode_u64 C (time_sec x), encode_u64 C (time_nsec x)]"

definition encode_Stat :: "crates \<Rightarrow> Stat \<Rightarrow> nat writing" where
  "encode_Stat C x =
     encoder_chain
       [encode_u32 C (stat_mode x), encode_u32 C (stat_uid x), encode_u32 C (stat_gid x),
        encode_u64 C (stat_nlink x), encode_u64 C (stat_rdev x), encode_u64 C (stat_size x),
        encode_u64 C (stat_blksize x), encode_u64 C (stat_blocks x),
        encode_Time C (stat_atime x), encode_Time C (stat_mtime x),
        encode_Time C (stat_ctime x)]"

definition encode_SetAttr :: "crates \<Rightarrow> SetAttr \<Rightarrow> nat writing" where
  "encode_SetAttr C x =
     encoder_chain
       [encode_u32 C (sattr_mode x), encode_u32 C (sattr_uid x), encode_u32 C (sattr_gid x),
        encode_u64 C (sattr_size x), encode_Time C (sattr_atime x),
        encode_Time C (sattr_mtime x)]"

definition encode_DirEntry :: "crates \<Rightarrow> DirEntry \<Rightarrow> nat writing" where
  "encode_DirEntry C x =
     encoder_chain
       [encode_QId C (de_qid x), encode_u64 C (de_offset x), encode_u8 C (de_typ x),
        encode_String C (de_name x)]"

definition encode_DirEntryData :: "crates \<Rightarrow> DirEntryData \<Rightarrow> nat writing" where
  "encode_DirEntryData C d =
     foldl (\<lambda>acc e. shl acc (encode_DirEntry C e))
       (shl encoder_new (encode_u32 C (DirEntryData_size d))) (ded_data d)"

primrec encode_Data :: "crates \<Rightarrow> Data \<Rightarrow> nat writing" where
  "encode_Data C (Data b) =
     and_then (encode_u32 C (word_of_nat (length b))) (\<lambda>n.
     and_then (write_all b) (\<lambda>_.
     ok (n + length b)))"

definition encode_Flock :: "crates \<Rightarrow> Flock \<Rightarrow> nat writing" where
  "encode_Flock C x =
     encoder_chain
       [encode_u8 C (flock_typ x), encode_u32 C (flock_flags x),
        encode_u64 C (flock_start x), encode_u64 C (flock_length x),
        encode_u32 C (flock_proc_id x), encode_String C (flock_client_id x)]"

definition encode_Getlock :: "crates \<Rightarrow> Getlock \<Rightarrow> nat writing" where
  "encode_Getlock C x =
     encoder_chain
       [encode_u8 C (glock_typ x), encode_u64 C (glock_start x),
        encode_u64 C (glock_length x), encode_u32 C (glock_proc_id x),
        encode_String C (glock_client_id x)]"

definition encode_Vec :: "crates \<Rightarrow> ('a \<Rightarrow> nat writing) \<Rightarrow> 'a list \<Rightarrow> nat writing" where
  "encode_Vec C encode xs =
     foldl (\<lambda>acc s. shl acc (encode s))
       (shl encoder_new (encode_u16 C (word_of_nat (length xs)))) xs"

text \<open>
  The match on the body in \<^verbatim>\<open>impl Encodable for Msg\<close>: \<open>buf\<close> is the encoder after the
  type and the tag, each arm continues it.
\<close>

primrec encode_body :: "crates \<Rightarrow> nat writing \<Rightarrow> fcall \<Rightarrow> nat writing" where
  "encode_body C buf (RlError ecode) = foldl shl buf [encode_u32 C ecode]"
| "encode_body C buf (TStatFs fid) = foldl shl buf [encode_u32 C fid]"
| "encode_body C buf (RStatFs statfs) = foldl shl buf [encode_StatFs C statfs]"
| "encode_body C buf (TlOpen fid flags) =
     foldl shl buf
       [encode_u32 C fid, encode_u32 C flags]"
| "encode_body C buf (RlOpen qid iounit) =
     foldl shl buf
       [encode_QId C qid, encode_u32 C iounit]"
| "encode_body C buf (TlCreate fid name flags mode gid) =
     foldl shl buf
       [encode_u32 C fid, encode_String C name, encode_u32 C flags, encode_u32 C mode,
        encode_u32 C gid]"
| "encode_body C buf (RlCreate qid iounit) =
     foldl shl buf
       [encode_QId C qid, encode_u32 C iounit]"
| "encode_body C buf (TSymlink fid name symtgt gid) =
     foldl shl buf
       [encode_u32 C fid, encode_String C name, encode_String C symtgt, encode_u32 C gid]"
| "encode_body C buf (RSymlink qid) = foldl shl buf [encode_QId C qid]"
| "encode_body C buf (TMkNod dfid name mode major minor gid) =
     foldl shl buf
       [encode_u32 C dfid, encode_String C name, encode_u32 C mode, encode_u32 C major,
        encode_u32 C minor, encode_u32 C gid]"
| "encode_body C buf (RMkNod qid) = foldl shl buf [encode_QId C qid]"
| "encode_body C buf (TRename fid dfid name) =
     foldl shl buf
       [encode_u32 C fid, encode_u32 C dfid, encode_String C name]"
| "encode_body C buf RRename = buf"
| "encode_body C buf (TReadLink fid) = foldl shl buf [encode_u32 C fid]"
| "encode_body C buf (RReadLink target) = foldl shl buf [encode_String C target]"
| "encode_body C buf (TGetAttr fid req_mask) =
     foldl shl buf
       [encode_u32 C fid, encode_u64 C req_mask]"
| "encode_body C buf (RGetAttr valid qid stat) =
     foldl shl buf
       [encode_u64 C valid, encode_QId C qid, encode_Stat C stat, encode_u64 C 0,
        encode_u64 C 0, encode_u64 C 0, encode_u64 C 0]"
| "encode_body C buf (TSetAttr fid valid stat) =
     foldl shl buf
       [encode_u32 C fid, encode_u32 C valid, encode_SetAttr C stat]"
| "encode_body C buf RSetAttr = buf"
| "encode_body C buf (TxAttrWalk fid newfid name) =
     foldl shl buf
       [encode_u32 C fid, encode_u32 C newfid, encode_String C name]"
| "encode_body C buf (RxAttrWalk sz) = foldl shl buf [encode_u64 C sz]"
| "encode_body C buf (TxAttrCreate fid name attr_size flags) =
     foldl shl buf
       [encode_u32 C fid, encode_String C name, encode_u64 C attr_size, encode_u32 C flags]"
| "encode_body C buf RxAttrCreate = buf"
| "encode_body C buf (TReadDir fid offset count) =
     foldl shl buf
       [encode_u32 C fid, encode_u64 C offset, encode_u32 C count]"
| "encode_body C buf (RReadDir data) = foldl shl buf [encode_DirEntryData C data]"
| "encode_body C buf (TFSync fid) = foldl shl buf [encode_u32 C fid]"
| "encode_body C buf RFSync = buf"
| "encode_body C buf (TLock fid flock) =
     foldl shl buf
       [encode_u32 C fid, encode_Flock C flock]"
| "encode_body C buf (RLock status) = foldl shl buf [encode_u8 C status]"
| "encode_body C buf (TGetLock fid flock) =
     foldl shl buf
       [encode_u32 C fid, encode_Getlock C flock]"
| "encode_body C buf (RGetLock flock) = foldl shl buf [encode_Getlock C flock]"
| "encode_body C buf (TLink dfid fid name) =
     foldl shl buf
       [encode_u32 C dfid, encode_u32 C fid, encode_String C name]"
| "encode_body C buf RLink = buf"
| "encode_body C buf (TMkDir dfid name mode gid) =
     foldl shl buf
       [encode_u32 C dfid, encode_String C name, encode_u32 C mode, encode_u32 C gid]"
| "encode_body C buf (RMkDir qid) = foldl shl buf [encode_QId C qid]"
| "encode_body C buf (TRenameAt olddirfid oldname newdirfid newname) =
     foldl shl buf
       [encode_u32 C olddirfid, encode_String C oldname, encode_u32 C newdirfid,
        encode_String C newname]"
| "encode_body C buf RRenameAt = buf"
| "encode_body C buf (TUnlinkAt dirfd name flags) =
     foldl shl buf
       [encode_u32 C dirfd, encode_String C name, encode_u32 C flags]"
| "encode_body C buf RUnlinkAt = buf"
| "encode_body C buf (TAuth afid uname aname n_uname) =
     foldl shl buf
       [encode_u32 C afid, encode_String C uname, encode_String C aname,
        encode_u32 C n_uname]"
| "encode_body C buf (RAuth aqid) = foldl shl buf [encode_QId C aqid]"
| "encode_body C buf (TAttach fid afid uname aname n_uname) =
     foldl shl buf
       [encode_u32 C fid, encode_u32 C afid, encode_String C uname, encode_String C aname,
        encode_u32 C n_uname]"
| "encode_body C buf (RAttach qid) = foldl shl buf [encode_QId C qid]"
| "encode_body C buf (TVersion msize version) =
     foldl shl buf
       [encode_u32 C msize, encode_String C version]"
| "encode_body C buf (RVersion msize version) =
     foldl shl buf
       [encode_u32 C msize, encode_String C version]"
| "encode_body C buf (TFlush oldtag) = foldl shl buf [encode_u16 C oldtag]"
| "encode_body C buf RFlush = buf"
| "encode_body C buf (TWalk fid newfid wnames) =
     foldl shl buf
       [encode_u32 C fid, encode_u32 C newfid, encode_Vec C (encode_String C) wnames]"
| "encode_body C buf (RWalk wqids) = foldl shl buf [encode_Vec C (encode_QId C) wqids]"
| "encode_body C buf (TRead fid offset count) =
     foldl shl buf
       [encode_u32 C fid, encode_u64 C offset, encode_u32 C count]"
| "encode_body C buf (RRead data) = foldl shl buf [encode_Data C data]"
| "encode_body C buf (TWrite fid offset data) =
     foldl shl buf
       [encode_u32 C fid, encode_u64 C offset, encode_Data C data]"
| "encode_body C buf (RWrite count) = foldl shl buf [encode_u32 C count]"
| "encode_body C buf (TClunk fid) = foldl shl buf [encode_u32 C fid]"
| "encode_body C buf RClunk = buf"
| "encode_body C buf (TRemove fid) = foldl shl buf [encode_u32 C fid]"
| "encode_body C buf RRemove = buf"

definition encode_Msg :: "crates \<Rightarrow> Msg \<Rightarrow> nat writing" where
  "encode_Msg C m =
     (let typ = msg_type_of (msg_body m);
          buf = shl (shl encoder_new (encode_u8 C (msg_type_code typ))) (encode_u16 C (msg_tag m))
      in encode_body C buf (msg_body m))"

definition write_msg :: "crates \<Rightarrow> Msg \<Rightarrow> nat writing" where
  "write_msg C m = encode_Msg C m"

section \<open>Every implementation emits the wire format\<close>

lemmas chain_emit = encoder_chain_def encoder_new_emit shl_emit

context crates_laws
begin

lemma encode_u8_emit: "encode_u8 C v = emit (wire_u8 v)"
  by (simp add: encode_u8_def emit_def wire_u8_def put_u8)

lemma encode_u16_emit: "encode_u16 C v = emit (wire_u16 v)"
  by (simp add: encode_u16_def emit_def wire_u16_def put_u16)

lemma encode_u32_emit: "encode_u32 C v = emit (wire_u32 v)"
  by (simp add: encode_u32_def emit_def wire_u32_def put_u32)

lemma encode_u64_emit: "encode_u64 C v = emit (wire_u64 v)"
  by (simp add: encode_u64_def emit_def wire_u64_def put_u64)

lemmas encode_int_emit = encode_u8_emit encode_u16_emit encode_u32_emit encode_u64_emit

lemma encode_String_emit: "encode_String C s = emit (wire_String s)"
proof -
  have "encode_String C s = shl (emit (wire_u16 (word_of_nat (length s)))) (emit s)"
    by (simp add: encode_String_def encode_u16_emit shl_def emit_def and_then_assoc)
  then show ?thesis by (simp add: shl_emit wire_String_def)
qed

lemma encode_Data_emit: "encode_Data C d = emit (wire_Data d)"
proof (cases d)
  case (Data b)
  have "encode_Data C d = shl (emit (wire_u32 (word_of_nat (length b)))) (emit b)"
    by (simp add: Data encode_u32_emit shl_def emit_def and_then_assoc)
  then show ?thesis by (simp add: shl_emit Data)
qed

lemma encode_QId_emit: "encode_QId C x = emit (wire_QId x)"
  by (simp add: encode_QId_def wire_QId_def chain_emit encode_int_emit)

lemma encode_StatFs_emit: "encode_StatFs C x = emit (wire_StatFs x)"
  by (simp add: encode_StatFs_def wire_StatFs_def chain_emit encode_int_emit)

lemma encode_Time_emit: "encode_Time C x = emit (wire_Time x)"
  by (simp add: encode_Time_def wire_Time_def chain_emit encode_int_emit)

lemma encode_Stat_emit: "encode_Stat C x = emit (wire_Stat x)"
  by (simp add: encode_Stat_def wire_Stat_def chain_emit encode_int_emit encode_Time_emit)

lemma encode_SetAttr_emit: "encode_SetAttr C x = emit (wire_SetAttr x)"
  by (simp add: encode_SetAttr_def wire_SetAttr_def chain_emit encode_int_emit encode_Time_emit)

lemma encode_DirEntry_emit: "encode_DirEntry C x = emit (wire_DirEntry x)"
  by (simp add: encode_DirEntry_def wire_DirEntry_def chain_emit encode_int_emit encode_QId_emit encode_String_emit)

lemma encode_Flock_emit: "encode_Flock C x = emit (wire_Flock x)"
  by (simp add: encode_Flock_def wire_Flock_def chain_emit encode_int_emit encode_String_emit)

lemma encode_Getlock_emit: "encode_Getlock C x = emit (wire_Getlock x)"
  by (simp add: encode_Getlock_def wire_Getlock_def chain_emit encode_int_emit encode_String_emit)

lemma encode_Vec_emit:
  assumes "encodable encode wire"
  shows "encode_Vec C encode xs = emit (wire_Vec wire xs)"
  by (simp add: encode_Vec_def wire_Vec_def encode_u16_emit encoder_new_emit shl_emit
      encodable.encode_fold [OF assms])

lemma encode_DirEntryData_emit: "encode_DirEntryData C d = emit (wire_DirEntryData d)"
  by (simp add: encode_DirEntryData_def wire_DirEntryData_def DirEntryData_size_wire encode_u32_emit
      encoder_new_emit shl_emit encodable.encode_fold [OF encodable.intro [OF encode_DirEntry_emit]])

lemma encode_names_emit: "encode_Vec C (encode_String C) xs = emit (wire_Vec wire_String xs)"
  by (rule encode_Vec_emit) (simp add: encodable_def encode_String_emit)

lemma encode_qids_emit: "encode_Vec C (encode_QId C) xs = emit (wire_Vec wire_QId xs)"
  by (rule encode_Vec_emit) (simp add: encodable_def encode_QId_emit)

lemmas encode_field_emit =
  encode_int_emit encode_String_emit encode_Data_emit encode_QId_emit encode_StatFs_emit
  encode_Time_emit encode_Stat_emit encode_SetAttr_emit encode_DirEntryData_emit
  encode_Flock_emit encode_Getlock_emit encode_names_emit encode_qids_emit

lemma encode_body_emit: "encode_body C (emit b) m = emit (b @ wire_body m)"
  by (cases m) (simp_all add: encode_field_emit shl_emit)

lemma encode_Msg_emit: "encode_Msg C m = emit (wire_Msg m)"
  by (simp add: encode_Msg_def wire_Msg_def Let_def encoder_new_emit encode_int_emit shl_emit
      encode_body_emit)

end

text \<open>Each type of the protocol is an instance of the interface.\<close>

sublocale crates_laws \<subseteq> enc_u8: encodable "encode_u8 C" wire_u8
  by unfold_locales (rule encode_u8_emit)

sublocale crates_laws \<subseteq> enc_u16: encodable "encode_u16 C" wire_u16
  by unfold_locales (rule encode_u16_emit)

sublocale crates_laws \<subseteq> enc_u32: encodable "encode_u32 C" wire_u32
  by unfold_locales (rule encode_u32_emit)

sublocale crates_laws \<subseteq> enc_u64: encodable "encode_u64 C" wire_u64
  by unfold_locales (rule encode_u64_emit)

sublocale crates_laws \<subseteq> enc_String: encodable "encode_String C" wire_String
  by unfold_locales (rule encode_String_emit)

sublocale crates_laws \<subseteq> enc_QId: encodable "encode_QId C" wire_QId
  by unfold_locales (rule encode_QId_emit)

sublocale crates_laws \<subseteq> enc_StatFs: encodable "encode_StatFs C" wire_StatFs
  by unfold_locales (rule encode_StatFs_emit)

sublocale crates_laws \<subseteq> enc_Time: encodable "encode_Time C" wire_Time
  by unfold_locales (rule encode_Time_emit)

sublocale crates_laws \<subseteq> enc_Stat: encodable "encode_Stat C" wire_Stat
  by unfold_locales (rule encode_Stat_emit)

sublocale crates_laws \<subseteq> enc_SetAttr: encodable "encode_SetAttr C" wire_SetAttr
  by unfold_locales (rule encode_SetAttr_emit)

sublocale crates_laws \<subseteq> enc_DirEntry: encodable "encode_DirEntry C" wire_DirEntry
  by unfold_locales (rule encode_DirEntry_emit)

sublocale crates_laws \<subseteq> enc_DirEntryData: encodable "encode_DirEntryData C" wire_DirEntryData
  by unfold_locales (rule encode_DirEntryData_emit)

sublocale crates_laws \<subseteq> enc_Data: encodable "encode_Data C" wire_Data
  by unfold_locales (rule encode_Data_emit)

sublocale crates_laws \<subseteq> enc_Flock: encodable "encode_Flock C" wire_Flock
  by unfold_locales (rule encode_Flock_emit)

sublocale crates_laws \<subseteq> enc_Getlock: encodable "encode_Getlock C" wire_Getlock
  by unfold_locales (rule encode_Getlock_emit)

sublocale crates_laws \<subseteq> enc_Msg: encodable "encode_Msg C" wire_Msg
  by unfold_locales (rule encode_Msg_emit)

end
