(* ===== verification/Decode.thy ===== *)
theory Decode
  imports Encode
begin

text \<open>
  The implementations of \<^verbatim>\<open>Decodable\<close> in \<^verbatim>\<open>crates/rs9p/src/serialize.rs\<close>, field by field
  in the order of the source, and their codec laws: every decoder is a parser, reads back
  what its encoder wrote, and returns values the wire format can carry.
\<close>

section \<open>The implementations\<close>

definition decode_u8 :: "crates \<Rightarrow> u8 reader" where
  "decode_u8 C = and_then (read_exact 1) (\<lambda>b. ok (get_u8 C b))"

definition decode_u16 :: "crates \<Rightarrow> u16 reader" where
  "decode_u16 C = and_then (read_exact 2) (\<lambda>b. ok (get_u16 C b))"

definition decode_u32 :: "crates \<Rightarrow> u32 reader" where
  "decode_u32 C = and_then (read_exact 4) (\<lambda>b. ok (get_u32 C b))"

definition decode_u64 :: "crates \<Rightarrow> u64 reader" where
  "decode_u64 C = and_then (read_exact 8) (\<lambda>b. ok (get_u64 C b))"

text \<open>\<^verbatim>\<open>decode!($typ, $buf)\<close>: \<^verbatim>\<open>$typ::from_bits_truncate(decode!($buf))\<close>.\<close>

definition decode_flags_u8 :: "crates \<Rightarrow> u8 list \<Rightarrow> u8 reader" where
  "decode_flags_u8 C fs = and_then (decode_u8 C) (\<lambda>b. ok (truncate_u8 C fs b))"

definition decode_flags_u32 :: "crates \<Rightarrow> u32 list \<Rightarrow> u32 reader" where
  "decode_flags_u32 C fs = and_then (decode_u32 C) (\<lambda>b. ok (truncate_u32 C fs b))"

definition decode_flags_u64 :: "crates \<Rightarrow> u64 list \<Rightarrow> u64 reader" where
  "decode_flags_u64 C fs = and_then (decode_u64 C) (\<lambda>b. ok (truncate_u64 C fs b))"

definition decode_String :: "crates \<Rightarrow> rstring reader" where
  "decode_String C =
     and_then (decode_u16 C) (\<lambda>len.
     and_then (read_exact (unat len)) (\<lambda>b.
     if utf8_valid b then ok b else fail (Custom Other ''Invalid UTF-8 sequence'')))"

definition decode_QId :: "crates \<Rightarrow> QId reader" where
  "decode_QId C =
     and_then (decode_flags_u8 C QIdType_flags) (\<lambda>typ.
     and_then (decode_u32 C) (\<lambda>version.
     and_then (decode_u64 C) (\<lambda>path.
     ok \<lparr>qid_typ = typ, qid_version = version, qid_path = path\<rparr>)))"

definition decode_StatFs :: "crates \<Rightarrow> StatFs reader" where
  "decode_StatFs C =
     and_then (decode_u32 C) (\<lambda>typ.
     and_then (decode_u32 C) (\<lambda>bsize.
     and_then (decode_u64 C) (\<lambda>blocks.
     and_then (decode_u64 C) (\<lambda>bfree.
     and_then (decode_u64 C) (\<lambda>bavail.
     and_then (decode_u64 C) (\<lambda>files.
     and_then (decode_u64 C) (\<lambda>ffree.
     and_then (decode_u64 C) (\<lambda>fsid.
     and_then (decode_u32 C) (\<lambda>namelen.
     ok \<lparr>sfs_typ = typ, sfs_bsize = bsize, sfs_blocks = blocks, sfs_bfree = bfree,
         sfs_bavail = bavail, sfs_files = files, sfs_ffree = ffree, sfs_fsid = fsid,
         sfs_namelen = namelen\<rparr>)))))))))"

definition decode_Time :: "crates \<Rightarrow> Time reader" where
  "decode_Time C =
     and_then (decode_u64 C) (\<lambda>sec.
     and_then (decode_u64 C) (\<lambda>nsec.
     ok \<lparr>time_sec = sec, time_nsec = nsec\<rparr>))"

definition decode_Stat :: "crates \<Rightarrow> Stat reader" where
  "decode_Stat C =
     and_then (decode_u32 C) (\<lambda>mode.
     and_then (decode_u32 C) (\<lambda>uid.
     and_then (decode_u32 C) (\<lambda>gid.
     and_then (decode_u64 C) (\<lambda>nlink.
     and_then (decode_u64 C) (\<lambda>rdev.
     and_then (decode_u64 C) (\<lambda>size.
     and_then (decode_u64 C) (\<lambda>blksize.
     and_then (decode_u64 C) (\<lambda>blocks.
     and_then (decode_Time C) (\<lambda>atime.
     and_then (decode_Time C) (\<lambda>mtime.
     and_then (decode_Time C) (\<lambda>ctime.
     ok \<lparr>stat_mode = mode, stat_uid = uid, stat_gid = gid, stat_nlink = nlink,
         stat_rdev = rdev, stat_size = size, stat_blksize = blksize, stat_blocks = blocks,
         stat_atime = atime, stat_mtime = mtime, stat_ctime = ctime\<rparr>)))))))))))"

definition decode_SetAttr :: "crates \<Rightarrow> SetAttr reader" where
  "decode_SetAttr C =
     and_then (decode_u32 C) (\<lambda>mode.
     and_then (decode_u32 C) (\<lambda>uid.
     and_then (decode_u32 C) (\<lambda>gid.
     and_then (decode_u64 C) (\<lambda>size.
     and_then (decode_Time C) (\<lambda>atime.
     and_then (decode_Time C) (\<lambda>mtime.
     ok \<lparr>sattr_mode = mode, sattr_uid = uid, sattr_gid = gid, sattr_size = size,
         sattr_atime = atime, sattr_mtime = mtime\<rparr>))))))"

definition decode_DirEntry :: "crates \<Rightarrow> DirEntry reader" where
  "decode_DirEntry C =
     and_then (decode_QId C) (\<lambda>qid.
     and_then (decode_u64 C) (\<lambda>offset.
     and_then (decode_u8 C) (\<lambda>typ.
     and_then (decode_String C) (\<lambda>name.
     ok \<lparr>de_qid = qid, de_offset = offset, de_typ = typ, de_name = name\<rparr>))))"

definition decode_DirEntryData :: "crates \<Rightarrow> DirEntryData reader" where
  "decode_DirEntryData C =
     and_then (decode_u32 C) (\<lambda>count.
     and_then (decode_loop (decode_DirEntry C) (unat count) []) (\<lambda>data.
     ok (DirEntryData_with data)))"

definition decode_Data :: "crates \<Rightarrow> Data reader" where
  "decode_Data C =
     and_then (decode_u32 C) (\<lambda>len.
     and_then (read_exact (unat len)) (\<lambda>b.
     ok (Data b)))"

definition decode_Flock :: "crates \<Rightarrow> Flock reader" where
  "decode_Flock C =
     and_then (decode_flags_u8 C LockType_flags) (\<lambda>typ.
     and_then (decode_flags_u32 C LockFlag_flags) (\<lambda>flags.
     and_then (decode_u64 C) (\<lambda>start.
     and_then (decode_u64 C) (\<lambda>length.
     and_then (decode_u32 C) (\<lambda>proc_id.
     and_then (decode_String C) (\<lambda>client_id.
     ok \<lparr>flock_typ = typ, flock_flags = flags, flock_start = start, flock_length = length,
         flock_proc_id = proc_id, flock_client_id = client_id\<rparr>))))))"

definition decode_Getlock :: "crates \<Rightarrow> Getlock reader" where
  "decode_Getlock C =
     and_then (decode_flags_u8 C LockType_flags) (\<lambda>typ.
     and_then (decode_u64 C) (\<lambda>start.
     and_then (decode_u64 C) (\<lambda>length.
     and_then (decode_u32 C) (\<lambda>proc_id.
     and_then (decode_String C) (\<lambda>client_id.
     ok \<lparr>glock_typ = typ, glock_start = start, glock_length = length,
         glock_proc_id = proc_id, glock_client_id = client_id\<rparr>)))))"

definition decode_Vec :: "crates \<Rightarrow> 'a reader \<Rightarrow> 'a list reader" where
  "decode_Vec C decode =
     and_then (decode_u16 C) (\<lambda>len. decode_loop decode (unat len) [])"

text \<open>
  The match on the message type in \<^verbatim>\<open>impl Decodable for Msg\<close>, in two parts: the messages of
  9P2000.L, and those of 9P2000.u and 9P2000 with the arm for what is no message.
\<close>

definition invalid_message_type :: "'a reader" where
  "invalid_message_type = fail (Custom Other ''Invalid message type'')"

definition decode_9P2000 :: "crates \<Rightarrow> msg_type \<Rightarrow> fcall reader" where
  "decode_9P2000 C mt =
     (case mt of
        MT_TAuth \<Rightarrow>
            and_then (decode_u32 C) (\<lambda>afid.
            and_then (decode_String C) (\<lambda>uname.
            and_then (decode_String C) (\<lambda>aname.
            and_then (decode_u32 C) (\<lambda>n_uname.
            ok (TAuth afid uname aname n_uname)))))
      | MT_RAuth \<Rightarrow>
            and_then (decode_QId C) (\<lambda>aqid.
            ok (RAuth aqid))
      | MT_TAttach \<Rightarrow>
            and_then (decode_u32 C) (\<lambda>fid.
            and_then (decode_u32 C) (\<lambda>afid.
            and_then (decode_String C) (\<lambda>uname.
            and_then (decode_String C) (\<lambda>aname.
            and_then (decode_u32 C) (\<lambda>n_uname.
            ok (TAttach fid afid uname aname n_uname))))))
      | MT_RAttach \<Rightarrow>
            and_then (decode_QId C) (\<lambda>qid.
            ok (RAttach qid))
      | MT_TVersion \<Rightarrow>
            and_then (decode_u32 C) (\<lambda>msize.
            and_then (decode_String C) (\<lambda>version.
            ok (TVersion msize version)))
      | MT_RVersion \<Rightarrow>
            and_then (decode_u32 C) (\<lambda>msize.
            and_then (decode_String C) (\<lambda>version.
            ok (RVersion msize version)))
      | MT_TFlush \<Rightarrow>
            and_then (decode_u16 C) (\<lambda>oldtag.
            ok (TFlush oldtag))
      | MT_RFlush \<Rightarrow> ok RFlush
      | MT_TWalk \<Rightarrow>
            and_then (decode_u32 C) (\<lambda>fid.
            and_then (decode_u32 C) (\<lambda>newfid.
            and_then (decode_Vec C (decode_String C)) (\<lambda>wnames.
            ok (TWalk fid newfid wnames))))
      | MT_RWalk \<Rightarrow>
            and_then (decode_Vec C (decode_QId C)) (\<lambda>wqids.
            ok (RWalk wqids))
      | MT_TRead \<Rightarrow>
            and_then (decode_u32 C) (\<lambda>fid.
            and_then (decode_u64 C) (\<lambda>offset.
            and_then (decode_u32 C) (\<lambda>count.
            ok (TRead fid offset count))))
      | MT_RRead \<Rightarrow>
            and_then (decode_Data C) (\<lambda>data.
            ok (RRead data))
      | MT_TWrite \<Rightarrow>
            and_then (decode_u32 C) (\<lambda>fid.
            and_then (decode_u64 C) (\<lambda>offset.
            and_then (decode_Data C) (\<lambda>data.
            ok (TWrite fid offset data))))
      | MT_RWrite \<Rightarrow>
            and_then (decode_u32 C) (\<lambda>count.
            ok (RWrite count))
      | MT_TClunk \<Rightarrow>
            and_then (decode_u32 C) (\<lambda>fid.
            ok (TClunk fid))
      | MT_RClunk \<Rightarrow> ok RClunk
      | MT_TRemove \<Rightarrow>
            and_then (decode_u32 C) (\<lambda>fid.
            ok (TRemove fid))
      | MT_RRemove \<Rightarrow> ok RRemove
      | _ \<Rightarrow> invalid_message_type)"

primrec decode_body :: "crates \<Rightarrow> msg_type \<Rightarrow> fcall reader" where
  "decode_body C MT_RlError =
     and_then (decode_u32 C) (\<lambda>ecode.
     ok (RlError ecode))"
| "decode_body C MT_TStatFs =
     and_then (decode_u32 C) (\<lambda>fid.
     ok (TStatFs fid))"
| "decode_body C MT_RStatFs =
     and_then (decode_StatFs C) (\<lambda>statfs.
     ok (RStatFs statfs))"
| "decode_body C MT_TlOpen =
     and_then (decode_u32 C) (\<lambda>fid.
     and_then (decode_u32 C) (\<lambda>flags.
     ok (TlOpen fid flags)))"
| "decode_body C MT_RlOpen =
     and_then (decode_QId C) (\<lambda>qid.
     and_then (decode_u32 C) (\<lambda>iounit.
     ok (RlOpen qid iounit)))"
| "decode_body C MT_TlCreate =
     and_then (decode_u32 C) (\<lambda>fid.
     and_then (decode_String C) (\<lambda>name.
     and_then (decode_u32 C) (\<lambda>flags.
     and_then (decode_u32 C) (\<lambda>mode.
     and_then (decode_u32 C) (\<lambda>gid.
     ok (TlCreate fid name flags mode gid))))))"
| "decode_body C MT_RlCreate =
     and_then (decode_QId C) (\<lambda>qid.
     and_then (decode_u32 C) (\<lambda>iounit.
     ok (RlCreate qid iounit)))"
| "decode_body C MT_TSymlink =
     and_then (decode_u32 C) (\<lambda>fid.
     and_then (decode_String C) (\<lambda>name.
     and_then (decode_String C) (\<lambda>symtgt.
     and_then (decode_u32 C) (\<lambda>gid.
     ok (TSymlink fid name symtgt gid)))))"
| "decode_body C MT_RSymlink =
     and_then (decode_QId C) (\<lambda>qid.
     ok (RSymlink qid))"
| "decode_body C MT_TMkNod =
     and_then (decode_u32 C) (\<lambda>dfid.
     and_then (decode_String C) (\<lambda>name.
     and_then (decode_u32 C) (\<lambda>mode.
     and_then (decode_u32 C) (\<lambda>major.
     and_then (decode_u32 C) (\<lambda>minor.
     and_then (decode_u32 C) (\<lambda>gid.
     ok (TMkNod dfid name mode major minor gid)))))))"
| "decode_body C MT_RMkNod =
     and_then (decode_QId C) (\<lambda>qid.
     ok (RMkNod qid))"
| "decode_body C MT_TRename =
     and_then (decode_u32 C) (\<lambda>fid.
     and_then (decode_u32 C) (\<lambda>dfid.
     and_then (decode_String C) (\<lambda>name.
     ok (TRename fid dfid name))))"
| "decode_body C MT_RRename = ok RRename"
| "decode_body C MT_TReadLink =
     and_then (decode_u32 C) (\<lambda>fid.
     ok (TReadLink fid))"
| "decode_body C MT_RReadLink =
     and_then (decode_String C) (\<lambda>target.
     ok (RReadLink target))"
| "decode_body C MT_TGetAttr =
     and_then (decode_u32 C) (\<lambda>fid.
     and_then (decode_flags_u64 C GetAttrMask_flags) (\<lambda>req_mask.
     ok (TGetAttr fid req_mask)))"
| "decode_body C MT_RGetAttr =
     and_then (decode_flags_u64 C GetAttrMask_flags) (\<lambda>valid.
     and_then (decode_QId C) (\<lambda>qid.
     and_then (decode_Stat C) (\<lambda>stat.
     and_then (decode_Time C) (\<lambda>btime.
     and_then (decode_u64 C) (\<lambda>gen.
     and_then (decode_u64 C) (\<lambda>ver.
     ok (RGetAttr valid qid stat)))))))"
| "decode_body C MT_TSetAttr =
     and_then (decode_u32 C) (\<lambda>fid.
     and_then (decode_flags_u32 C SetAttrMask_flags) (\<lambda>valid.
     and_then (decode_SetAttr C) (\<lambda>stat.
     ok (TSetAttr fid valid stat))))"
| "decode_body C MT_RSetAttr = ok RSetAttr"
| "decode_body C MT_TxAttrWalk =
     and_then (decode_u32 C) (\<lambda>fid.
     and_then (decode_u32 C) (\<lambda>newfid.
     and_then (decode_String C) (\<lambda>name.
     ok (TxAttrWalk fid newfid name))))"
| "decode_body C MT_RxAttrWalk =
     and_then (decode_u64 C) (\<lambda>sz.
     ok (RxAttrWalk sz))"
| "decode_body C MT_TxAttrCreate =
     and_then (decode_u32 C) (\<lambda>fid.
     and_then (decode_String C) (\<lambda>name.
     and_then (decode_u64 C) (\<lambda>attr_size.
     and_then (decode_u32 C) (\<lambda>flags.
     ok (TxAttrCreate fid name attr_size flags)))))"
| "decode_body C MT_RxAttrCreate = ok RxAttrCreate"
| "decode_body C MT_TReadDir =
     and_then (decode_u32 C) (\<lambda>fid.
     and_then (decode_u64 C) (\<lambda>offset.
     and_then (decode_u32 C) (\<lambda>count.
     ok (TReadDir fid offset count))))"
| "decode_body C MT_RReadDir =
     and_then (decode_DirEntryData C) (\<lambda>data.
     ok (RReadDir data))"
| "decode_body C MT_TFSync =
     and_then (decode_u32 C) (\<lambda>fid.
     ok (TFSync fid))"
| "decode_body C MT_RFSync = ok RFSync"
| "decode_body C MT_TLock =
     and_then (decode_u32 C) (\<lambda>fid.
     and_then (decode_Flock C) (\<lambda>flock.
     ok (TLock fid flock)))"
| "decode_body C MT_RLock =
     and_then (decode_flags_u8 C LockStatus_flags) (\<lambda>status.
     ok (RLock status))"
| "decode_body C MT_TGetLock =
     and_then (decode_u32 C) (\<lambda>fid.
     and_then (decode_Getlock C) (\<lambda>flock.
     ok (TGetLock fid flock)))"
| "decode_body C MT_RGetLock =
     and_then (decode_Getlock C) (\<lambda>flock.
     ok (RGetLock flock))"
| "decode_body C MT_TLink =
     and_then (decode_u32 C) (\<lambda>dfid.
     and_then (decode_u32 C) (\<lambda>fid.
     and_then (decode_String C) (\<lambda>name.
     ok (TLink dfid fid name))))"
| "decode_body C MT_RLink = ok RLink"
| "decode_body C MT_TMkDir =
     and_then (decode_u32 C) (\<lambda>dfid.
     and_then (decode_String C) (\<lambda>name.
     and_then (decode_u32 C) (\<lambda>mode.
     and_then (decode_u32 C) (\<lambda>gid.
     ok (TMkDir dfid name mode gid)))))"
| "decode_body C MT_RMkDir =
     and_then (decode_QId C) (\<lambda>qid.
     ok (RMkDir qid))"
| "decode_body C MT_TRenameAt =
     and_then (decode_u32 C) (\<lambda>olddirfid.
     and_then (decode_String C) (\<lambda>oldname.
     and_then (decode_u32 C) (\<lambda>newdirfid.
     and_then (decode_String C) (\<lambda>newname.
     ok (TRenameAt olddirfid oldname newdirfid newname)))))"
| "decode_body C MT_RRenameAt = ok RRenameAt"
| "decode_body C MT_TUnlinkAt =
     and_then (decode_u32 C) (\<lambda>dirfd.
     and_then (decode_String C) (\<lambda>name.
     and_then (decode_u32 C) (\<lambda>flags.
     ok (TUnlinkAt dirfd name flags))))"
| "decode_body C MT_RUnlinkAt = ok RUnlinkAt"
| "decode_body C MT_TAuth = decode_9P2000 C MT_TAuth"
| "decode_body C MT_RAuth = decode_9P2000 C MT_RAuth"
| "decode_body C MT_TAttach = decode_9P2000 C MT_TAttach"
| "decode_body C MT_RAttach = decode_9P2000 C MT_RAttach"
| "decode_body C MT_TVersion = decode_9P2000 C MT_TVersion"
| "decode_body C MT_RVersion = decode_9P2000 C MT_RVersion"
| "decode_body C MT_TFlush = decode_9P2000 C MT_TFlush"
| "decode_body C MT_RFlush = decode_9P2000 C MT_RFlush"
| "decode_body C MT_TWalk = decode_9P2000 C MT_TWalk"
| "decode_body C MT_RWalk = decode_9P2000 C MT_RWalk"
| "decode_body C MT_TRead = decode_9P2000 C MT_TRead"
| "decode_body C MT_RRead = decode_9P2000 C MT_RRead"
| "decode_body C MT_TWrite = decode_9P2000 C MT_TWrite"
| "decode_body C MT_RWrite = decode_9P2000 C MT_RWrite"
| "decode_body C MT_TClunk = decode_9P2000 C MT_TClunk"
| "decode_body C MT_RClunk = decode_9P2000 C MT_RClunk"
| "decode_body C MT_TRemove = decode_9P2000 C MT_TRemove"
| "decode_body C MT_RRemove = decode_9P2000 C MT_RRemove"
| "decode_body C MT_TlError = decode_9P2000 C MT_TlError"

definition decode_Msg :: "crates \<Rightarrow> Msg reader" where
  "decode_Msg C =
     and_then (decode_u8 C) (\<lambda>t.
     let msg_type = msg_type_from_u8 C t in
     and_then (decode_u16 C) (\<lambda>tag.
     and_then (case msg_type of Some mt \<Rightarrow> decode_body C mt | None \<Rightarrow> invalid_message_type) (\<lambda>body.
     ok \<lparr>msg_tag = tag, msg_body = body\<rparr>)))"

definition read_msg :: "crates \<Rightarrow> Msg reader" where
  "read_msg C = decode_Msg C"

section \<open>Every decoder is a parser\<close>

lemma parser_u8 [parser_intros]: "parser (decode_u8 C)"
  unfolding decode_u8_def by (intro parser_intros)

lemma parser_u16 [parser_intros]: "parser (decode_u16 C)"
  unfolding decode_u16_def by (intro parser_intros)

lemma parser_u32 [parser_intros]: "parser (decode_u32 C)"
  unfolding decode_u32_def by (intro parser_intros)

lemma parser_u64 [parser_intros]: "parser (decode_u64 C)"
  unfolding decode_u64_def by (intro parser_intros)

lemma parser_flags_u8 [parser_intros]: "parser (decode_flags_u8 C fs)"
  unfolding decode_flags_u8_def by (intro parser_intros)

lemma parser_flags_u32 [parser_intros]: "parser (decode_flags_u32 C fs)"
  unfolding decode_flags_u32_def by (intro parser_intros)

lemma parser_flags_u64 [parser_intros]: "parser (decode_flags_u64 C fs)"
  unfolding decode_flags_u64_def by (intro parser_intros)

lemma parser_String [parser_intros]: "parser (decode_String C)"
  unfolding decode_String_def by (auto intro!: parser_intros split: if_splits)

lemma parser_QId [parser_intros]: "parser (decode_QId C)"
  unfolding decode_QId_def by (intro parser_intros)

lemma parser_StatFs [parser_intros]: "parser (decode_StatFs C)"
  unfolding decode_StatFs_def by (intro parser_intros)

lemma parser_Time [parser_intros]: "parser (decode_Time C)"
  unfolding decode_Time_def by (intro parser_intros)

lemma parser_Stat [parser_intros]: "parser (decode_Stat C)"
  unfolding decode_Stat_def by (intro parser_intros)

lemma parser_SetAttr [parser_intros]: "parser (decode_SetAttr C)"
  unfolding decode_SetAttr_def by (intro parser_intros)

lemma parser_DirEntry [parser_intros]: "parser (decode_DirEntry C)"
  unfolding decode_DirEntry_def by (intro parser_intros)

lemma parser_DirEntryData [parser_intros]: "parser (decode_DirEntryData C)"
  unfolding decode_DirEntryData_def by (intro parser_intros)

lemma parser_Data [parser_intros]: "parser (decode_Data C)"
  unfolding decode_Data_def by (intro parser_intros)

lemma parser_Flock [parser_intros]: "parser (decode_Flock C)"
  unfolding decode_Flock_def by (intro parser_intros)

lemma parser_Getlock [parser_intros]: "parser (decode_Getlock C)"
  unfolding decode_Getlock_def by (intro parser_intros)

lemma parser_Vec [parser_intros]: "parser decode \<Longrightarrow> parser (decode_Vec C decode)"
  unfolding decode_Vec_def by (intro parser_intros)

lemma parser_body [parser_intros]: "parser (decode_body C mt)"
  by (cases mt) (simp_all add: decode_9P2000_def parser_intros invalid_message_type_def)

lemma parser_Msg [parser_intros]: "parser (decode_Msg C)"
  unfolding decode_Msg_def Let_def invalid_message_type_def
  by (intro parser_intros) (auto intro: parser_intros split: option.split)

section \<open>The errors of the decoders\<close>

abbreviation invalid_utf8 :: io_error where
  "invalid_utf8 \<equiv> Custom Other ''Invalid UTF-8 sequence''"

abbreviation invalid_type :: io_error where
  "invalid_type \<equiv> Custom Other ''Invalid message type''"

definition decode_errors :: "io_error set" where
  "decode_errors = {unexpected_eof, invalid_utf8, invalid_type}"

lemma decode_errors_mem [error_intros]:
  "unexpected_eof \<in> decode_errors" "invalid_utf8 \<in> decode_errors" "invalid_type \<in> decode_errors"
  by (simp_all add: decode_errors_def)

lemma errors_u8 [error_intros]: "fails_with decode_errors (decode_u8 C)"
  unfolding decode_u8_def by (intro error_intros)

lemma errors_u16 [error_intros]: "fails_with decode_errors (decode_u16 C)"
  unfolding decode_u16_def by (intro error_intros)

lemma errors_u32 [error_intros]: "fails_with decode_errors (decode_u32 C)"
  unfolding decode_u32_def by (intro error_intros)

lemma errors_u64 [error_intros]: "fails_with decode_errors (decode_u64 C)"
  unfolding decode_u64_def by (intro error_intros)

lemma errors_flags_u8 [error_intros]: "fails_with decode_errors (decode_flags_u8 C fs)"
  unfolding decode_flags_u8_def by (intro error_intros)

lemma errors_flags_u32 [error_intros]: "fails_with decode_errors (decode_flags_u32 C fs)"
  unfolding decode_flags_u32_def by (intro error_intros)

lemma errors_flags_u64 [error_intros]: "fails_with decode_errors (decode_flags_u64 C fs)"
  unfolding decode_flags_u64_def by (intro error_intros)

lemma errors_String [error_intros]: "fails_with decode_errors (decode_String C)"
  unfolding decode_String_def by (auto intro!: error_intros split: if_splits)

lemma errors_QId [error_intros]: "fails_with decode_errors (decode_QId C)"
  unfolding decode_QId_def by (intro error_intros)

lemma errors_StatFs [error_intros]: "fails_with decode_errors (decode_StatFs C)"
  unfolding decode_StatFs_def by (intro error_intros)

lemma errors_Time [error_intros]: "fails_with decode_errors (decode_Time C)"
  unfolding decode_Time_def by (intro error_intros)

lemma errors_Stat [error_intros]: "fails_with decode_errors (decode_Stat C)"
  unfolding decode_Stat_def by (intro error_intros)

lemma errors_SetAttr [error_intros]: "fails_with decode_errors (decode_SetAttr C)"
  unfolding decode_SetAttr_def by (intro error_intros)

lemma errors_DirEntry [error_intros]: "fails_with decode_errors (decode_DirEntry C)"
  unfolding decode_DirEntry_def by (intro error_intros)

lemma errors_DirEntryData [error_intros]: "fails_with decode_errors (decode_DirEntryData C)"
  unfolding decode_DirEntryData_def by (intro error_intros)

lemma errors_Data [error_intros]: "fails_with decode_errors (decode_Data C)"
  unfolding decode_Data_def by (intro error_intros)

lemma errors_Flock [error_intros]: "fails_with decode_errors (decode_Flock C)"
  unfolding decode_Flock_def by (intro error_intros)

lemma errors_Getlock [error_intros]: "fails_with decode_errors (decode_Getlock C)"
  unfolding decode_Getlock_def by (intro error_intros)

lemma errors_Vec [error_intros]:
  "fails_with decode_errors decode \<Longrightarrow> fails_with decode_errors (decode_Vec C decode)"
  unfolding decode_Vec_def by (intro error_intros)

lemma errors_body [error_intros]: "fails_with decode_errors (decode_body C mt)"
  by (cases mt) (simp_all add: decode_9P2000_def error_intros invalid_message_type_def)

lemma errors_Msg [error_intros]: "fails_with decode_errors (decode_Msg C)"
  unfolding decode_Msg_def Let_def invalid_message_type_def
  by (intro error_intros) (auto intro: error_intros split: option.split)

section \<open>Round trips\<close>

lemma bits_ok_and: "bits_ok fs (b AND all_bits fs)"
  by (simp add: bits_ok_def and.assoc)

lemma le_bytes_back: "le_nat (le_bytes k (unat v)) = unat v" if "2 ^ LENGTH('a) \<le> (256::nat) ^ k"
  for v :: "'a::len word"
proof -
  have "unat v < 2 ^ LENGTH('a)" by simp
  with that have "unat v < 256 ^ k" by (rule less_le_trans [rotated])
  then show ?thesis by (simp add: le_nat_le_bytes)
qed

context crates_laws
begin

lemma decode_u8_wire [dec_simps]: "decode_u8 C (wire_u8 v @ r) = (Inr v, r)"
  by (simp add: decode_u8_def wire_u8_def and_then_def read_exact_def get_u8)

lemma decode_u16_wire [dec_simps]: "decode_u16 C (wire_u16 v @ r) = (Inr v, r)"
  by (simp add: decode_u16_def wire_u16_def get_u16 le_bytes_back)

lemma decode_u32_wire [dec_simps]: "decode_u32 C (wire_u32 v @ r) = (Inr v, r)"
  by (simp add: decode_u32_def wire_u32_def get_u32 le_bytes_back)

lemma decode_u64_wire [dec_simps]: "decode_u64 C (wire_u64 v @ r) = (Inr v, r)"
  by (simp add: decode_u64_def wire_u64_def get_u64 le_bytes_back)

lemma decode_flags_u8_wire [dec_simps]:
  "bits_ok fs v \<Longrightarrow> decode_flags_u8 C fs (wire_u8 v @ r) = (Inr v, r)"
  by (simp add: decode_flags_u8_def decode_u8_wire truncate_u8 bits_ok_def)

lemma decode_flags_u32_wire [dec_simps]:
  "bits_ok fs v \<Longrightarrow> decode_flags_u32 C fs (wire_u32 v @ r) = (Inr v, r)"
  by (simp add: decode_flags_u32_def decode_u32_wire truncate_u32 bits_ok_def)

lemma decode_flags_u64_wire [dec_simps]:
  "bits_ok fs v \<Longrightarrow> decode_flags_u64 C fs (wire_u64 v @ r) = (Inr v, r)"
  by (simp add: decode_flags_u64_def decode_u64_wire truncate_u64 bits_ok_def)

lemma decode_String_wire [dec_simps]:
  "valid_String s \<Longrightarrow> decode_String C (wire_String s @ r) = (Inr s, r)"
  by (simp add: decode_String_def wire_String_def valid_String_def decode_u16_wire unat_of_nat)

lemma decode_Data_wire [dec_simps]:
  "valid_Data d \<Longrightarrow> decode_Data C (wire_Data d @ r) = (Inr d, r)"
  by (cases d) (simp add: decode_Data_def decode_u32_wire unat_of_nat)

lemma decode_QId_wire [dec_simps]: "valid_QId x \<Longrightarrow> decode_QId C (wire_QId x @ r) = (Inr x, r)"
  by (simp add: decode_QId_def wire_QId_def valid_QId_def dec_simps)

lemma decode_StatFs_wire [dec_simps]: "decode_StatFs C (wire_StatFs x @ r) = (Inr x, r)"
  by (simp add: decode_StatFs_def wire_StatFs_def dec_simps)

lemma decode_Time_wire [dec_simps]: "decode_Time C (wire_Time x @ r) = (Inr x, r)"
  by (simp add: decode_Time_def wire_Time_def dec_simps)

lemma decode_Stat_wire [dec_simps]: "decode_Stat C (wire_Stat x @ r) = (Inr x, r)"
  by (simp add: decode_Stat_def wire_Stat_def dec_simps)

lemma decode_SetAttr_wire [dec_simps]: "decode_SetAttr C (wire_SetAttr x @ r) = (Inr x, r)"
  by (simp add: decode_SetAttr_def wire_SetAttr_def dec_simps)

lemma decode_DirEntry_wire [dec_simps]: "valid_DirEntry x \<Longrightarrow> decode_DirEntry C (wire_DirEntry x @ r) = (Inr x, r)"
  by (simp add: decode_DirEntry_def wire_DirEntry_def valid_DirEntry_def dec_simps)

lemma decode_Flock_wire [dec_simps]: "valid_Flock x \<Longrightarrow> decode_Flock C (wire_Flock x @ r) = (Inr x, r)"
  by (simp add: decode_Flock_def wire_Flock_def valid_Flock_def dec_simps)

lemma decode_Getlock_wire [dec_simps]: "valid_Getlock x \<Longrightarrow> decode_Getlock C (wire_Getlock x @ r) = (Inr x, r)"
  by (simp add: decode_Getlock_def wire_Getlock_def valid_Getlock_def dec_simps)

lemma decode_Vec_wire:
  assumes "codec encode wire decode valid" and "valid_Vec valid xs"
  shows "decode_Vec C decode (wire_Vec wire xs @ r) = (Inr xs, r)"
  using assms(2)
  by (simp add: decode_Vec_def wire_Vec_def valid_Vec_def decode_u16_wire unat_of_nat
      codec.decode_loop_wire [OF assms(1), where buf = "[]", simplified])

end

text \<open>Each type of the protocol is an instance of the interface.\<close>

sublocale crates_laws \<subseteq> u8: codec "encode_u8 C" wire_u8 "decode_u8 C" "\<lambda>_. True"
  by unfold_locales (simp_all add: parser_u8 decode_u8_wire)

sublocale crates_laws \<subseteq> u16: codec "encode_u16 C" wire_u16 "decode_u16 C" "\<lambda>_. True"
  by unfold_locales (simp_all add: parser_u16 decode_u16_wire)

sublocale crates_laws \<subseteq> u32: codec "encode_u32 C" wire_u32 "decode_u32 C" "\<lambda>_. True"
  by unfold_locales (simp_all add: parser_u32 decode_u32_wire)

sublocale crates_laws \<subseteq> u64: codec "encode_u64 C" wire_u64 "decode_u64 C" "\<lambda>_. True"
  by unfold_locales (simp_all add: parser_u64 decode_u64_wire)

sublocale crates_laws \<subseteq> String: codec "encode_String C" wire_String "decode_String C" valid_String
  by unfold_locales (simp_all add: parser_String decode_String_wire)

sublocale crates_laws \<subseteq> QId: codec "encode_QId C" wire_QId "decode_QId C" valid_QId
  by unfold_locales (simp_all add: parser_QId decode_QId_wire)

sublocale crates_laws \<subseteq> StatFs: codec "encode_StatFs C" wire_StatFs "decode_StatFs C" "\<lambda>_. True"
  by unfold_locales (simp_all add: parser_StatFs decode_StatFs_wire)

sublocale crates_laws \<subseteq> Time: codec "encode_Time C" wire_Time "decode_Time C" "\<lambda>_. True"
  by unfold_locales (simp_all add: parser_Time decode_Time_wire)

sublocale crates_laws \<subseteq> Stat: codec "encode_Stat C" wire_Stat "decode_Stat C" "\<lambda>_. True"
  by unfold_locales (simp_all add: parser_Stat decode_Stat_wire)

sublocale crates_laws \<subseteq> SetAttr: codec "encode_SetAttr C" wire_SetAttr "decode_SetAttr C" "\<lambda>_. True"
  by unfold_locales (simp_all add: parser_SetAttr decode_SetAttr_wire)

sublocale crates_laws \<subseteq> DirEntry: codec "encode_DirEntry C" wire_DirEntry "decode_DirEntry C" valid_DirEntry
  by unfold_locales (simp_all add: parser_DirEntry decode_DirEntry_wire)

sublocale crates_laws \<subseteq> Data: codec "encode_Data C" wire_Data "decode_Data C" valid_Data
  by unfold_locales (simp_all add: parser_Data decode_Data_wire)

sublocale crates_laws \<subseteq> Flock: codec "encode_Flock C" wire_Flock "decode_Flock C" valid_Flock
  by unfold_locales (simp_all add: parser_Flock decode_Flock_wire)

sublocale crates_laws \<subseteq> Getlock: codec "encode_Getlock C" wire_Getlock "decode_Getlock C" valid_Getlock
  by unfold_locales (simp_all add: parser_Getlock decode_Getlock_wire)

context crates_laws
begin

lemma decode_names_wire [dec_simps]:
  "valid_Vec valid_String xs \<Longrightarrow>
     decode_Vec C (decode_String C) (wire_Vec wire_String xs @ r) = (Inr xs, r)"
  by (rule decode_Vec_wire [OF String.codec_axioms])

lemma decode_qids_wire [dec_simps]:
  "valid_Vec valid_QId xs \<Longrightarrow>
     decode_Vec C (decode_QId C) (wire_Vec wire_QId xs @ r) = (Inr xs, r)"
  by (rule decode_Vec_wire [OF QId.codec_axioms])

lemma decode_no_entries [dec_simps]:
  "ded_data d = [] \<Longrightarrow> decode_DirEntryData C (wire_DirEntryData d @ r) = (Inr d, r)"
  by (simp add: decode_DirEntryData_def wire_DirEntryData_def listing_bytes_def
      DirEntryData_with_def decode_u32_wire)

lemma decode_zero_time: "decode_Time C (wire_u64 0 @ wire_u64 0 @ r) = (Inr \<lparr>time_sec = 0, time_nsec = 0\<rparr>, r)"
  by (simp add: decode_Time_def decode_u64_wire)

lemma decode_body_wire:
  "valid_fcall m \<Longrightarrow> empty_dir m \<Longrightarrow>
     decode_body C (msg_type_of m) (wire_body m @ r) = (Inr m, r)"
  by (cases m) (simp_all add: decode_9P2000_def dec_simps empty_dir_def decode_zero_time)

lemma decode_Msg_wire: "carried m \<Longrightarrow> decode_Msg C (wire_Msg m @ r) = (Inr m, r)"
  by (simp add: decode_Msg_def wire_Msg_def carried_def Let_def decode_u8_wire decode_u16_wire
      decode_body_wire msg_type_from_u8 [THEN iffD2, OF refl])

end

sublocale crates_laws \<subseteq> Msg: codec "encode_Msg C" wire_Msg "decode_Msg C" carried
  by unfold_locales (simp_all add: parser_Msg decode_Msg_wire)

context crates_laws
begin

lemma Msg_codec: "codec (encode_Msg C) wire_Msg (decode_Msg C) carried"
  by (rule Msg.codec_axioms)

end

section \<open>What is decoded is valid\<close>

lemma decode_String_valid: "decode_String C s = (Inr v, r) \<Longrightarrow> valid_String v"
proof -
  assume "decode_String C s = (Inr v, r)"
  then obtain len t b u where "read_exact (unat (len :: u16)) t = (Inr b, u)"
    and "(if utf8_valid b then ok b else fail (Custom Other ''Invalid UTF-8 sequence'')) u = (Inr v, r)"
    unfolding decode_String_def by blast
  then have "length v = unat len" and "utf8_valid v"
    by (auto dest: read_exact_InrD split: if_splits)
  then show ?thesis
    using unsigned_less [of len] by (simp add: valid_String_def)
qed

lemma decode_Data_valid: "decode_Data C s = (Inr v, r) \<Longrightarrow> valid_Data v"
proof -
  assume "decode_Data C s = (Inr v, r)"
  then obtain len t b u where "read_exact (unat (len :: u32)) t = (Inr b, u)" and "v = Data b"
    unfolding decode_Data_def by (auto elim!: and_then_InrE)
  then show ?thesis
    using unsigned_less [of len] by (auto dest: read_exact_InrD)
qed

lemma decode_Vec_valid:
  assumes "\<And>s x r. decode s = (Inr x, r) \<Longrightarrow> valid x"
    and "decode_Vec C decode s = (Inr xs, r)"
  shows "valid_Vec valid xs"
proof -
  from assms(2) obtain len t where loop: "decode_loop decode (unat (len :: u16)) [] t = (Inr xs, r)"
    unfolding decode_Vec_def by blast
  then have "length xs = unat len" by (auto dest: decode_loop_length)
  moreover from assms(1) loop have "list_all valid xs" by (rule decode_loop_all) auto
  ultimately show ?thesis
    using unsigned_less [of len] by (simp add: valid_Vec_def)
qed

context crates_laws
begin

lemma decode_flags_u8_valid: "decode_flags_u8 C fs s = (Inr v, r) \<Longrightarrow> bits_ok fs v"
  unfolding decode_flags_u8_def by (auto elim!: and_then_InrE simp: truncate_u8 bits_ok_and)

lemma decode_flags_u32_valid: "decode_flags_u32 C fs s = (Inr v, r) \<Longrightarrow> bits_ok fs v"
  unfolding decode_flags_u32_def by (auto elim!: and_then_InrE simp: truncate_u32 bits_ok_and)

lemma decode_flags_u64_valid: "decode_flags_u64 C fs s = (Inr v, r) \<Longrightarrow> bits_ok fs v"
  unfolding decode_flags_u64_def by (auto elim!: and_then_InrE simp: truncate_u64 bits_ok_and)

lemmas decode_leaf_valid =
  decode_flags_u8_valid decode_flags_u32_valid decode_flags_u64_valid decode_String_valid
  decode_Data_valid

lemma decode_QId_valid: "decode_QId C s = (Inr v, r) \<Longrightarrow> valid_QId v"
  unfolding decode_QId_def by (auto elim!: and_then_InrE simp: valid_QId_def decode_leaf_valid)

lemma decode_DirEntry_valid: "decode_DirEntry C s = (Inr v, r) \<Longrightarrow> valid_DirEntry v"
  unfolding decode_DirEntry_def
  by (auto elim!: and_then_InrE simp: valid_DirEntry_def decode_leaf_valid decode_QId_valid)

lemma decode_Flock_valid: "decode_Flock C s = (Inr v, r) \<Longrightarrow> valid_Flock v"
  unfolding decode_Flock_def by (auto elim!: and_then_InrE simp: valid_Flock_def decode_leaf_valid)

lemma decode_Getlock_valid: "decode_Getlock C s = (Inr v, r) \<Longrightarrow> valid_Getlock v"
  unfolding decode_Getlock_def by (auto elim!: and_then_InrE simp: valid_Getlock_def decode_leaf_valid)

lemma decode_DirEntryData_valid: "decode_DirEntryData C s = (Inr v, r) \<Longrightarrow> valid_DirEntryData v"
proof -
  assume "decode_DirEntryData C s = (Inr v, r)"
  then obtain n t xs u where loop: "decode_loop (decode_DirEntry C) (unat (n :: u32)) [] t = (Inr xs, u)"
    and v: "v = DirEntryData_with xs"
    unfolding decode_DirEntryData_def by (auto elim!: and_then_InrE)
  from loop have "length xs = unat n" by (auto dest: decode_loop_length)
  moreover have "list_all valid_DirEntry xs"
    by (rule decode_loop_all [OF decode_DirEntry_valid loop]) (simp_all add: list_all_iff)
  ultimately show ?thesis
    using unsigned_less [of n] by (simp add: v valid_DirEntryData_def DirEntryData_with_def)
qed

lemma decode_names_valid:
  "decode_Vec C (decode_String C) s = (Inr v, r) \<Longrightarrow> valid_Vec valid_String v"
  by (rule decode_Vec_valid [OF decode_String_valid])

lemma decode_qids_valid:
  "decode_Vec C (decode_QId C) s = (Inr v, r) \<Longrightarrow> valid_Vec valid_QId v"
  by (rule decode_Vec_valid [OF decode_QId_valid])

lemmas decode_field_valid =
  decode_leaf_valid decode_QId_valid decode_Flock_valid decode_Getlock_valid
  decode_DirEntryData_valid decode_names_valid decode_qids_valid

lemma decode_body_valid: "decode_body C mt s = (Inr m, r) \<Longrightarrow> valid_fcall m \<and> msg_type_of m = mt"
  by (cases mt)
    (auto elim!: and_then_InrE simp: decode_9P2000_def decode_field_valid invalid_message_type_def)

lemma decode_Msg_body:
  assumes "decode_Msg C s = (Inr m, r)"
  obtains t u where "decode_body C (msg_type_of (msg_body m)) t = (Inr (msg_body m), u)"
proof -
  from assms obtain t tag s1 s2 body u
    where "(case msg_type_from_u8 C t of Some mt \<Rightarrow> decode_body C mt | None \<Rightarrow> invalid_message_type) s2 =
        (Inr body, u)"
      and "m = \<lparr>msg_tag = tag, msg_body = body\<rparr>"
    unfolding decode_Msg_def Let_def by (auto elim!: and_then_InrE)
  then show thesis
    using that decode_body_valid
    by (cases "msg_type_from_u8 C t") (auto simp: invalid_message_type_def)
qed

lemma decode_Msg_valid: "decode_Msg C s = (Inr m, r) \<Longrightarrow> valid_fcall (msg_body m)"
  by (erule decode_Msg_body) (blast dest: decode_body_valid)

end

sublocale crates_laws \<subseteq> String: sound_codec "encode_String C" wire_String "decode_String C" valid_String
  by unfold_locales (rule decode_String_valid)

sublocale crates_laws \<subseteq> QId: sound_codec "encode_QId C" wire_QId "decode_QId C" valid_QId
  by unfold_locales (rule decode_QId_valid)

sublocale crates_laws \<subseteq> DirEntry: sound_codec "encode_DirEntry C" wire_DirEntry "decode_DirEntry C" valid_DirEntry
  by unfold_locales (rule decode_DirEntry_valid)

sublocale crates_laws \<subseteq> Data: sound_codec "encode_Data C" wire_Data "decode_Data C" valid_Data
  by unfold_locales (rule decode_Data_valid)

sublocale crates_laws \<subseteq> Flock: sound_codec "encode_Flock C" wire_Flock "decode_Flock C" valid_Flock
  by unfold_locales (rule decode_Flock_valid)

sublocale crates_laws \<subseteq> Getlock: sound_codec "encode_Getlock C" wire_Getlock "decode_Getlock C" valid_Getlock
  by unfold_locales (rule decode_Getlock_valid)

end
