(* ===== verification/Serialize.thy ===== *)
theory Serialize
  imports Decode
begin

text \<open>
  The properties of the serializer as a whole, over \<open>write_msg\<close> and \<open>read_msg\<close>: it
  implements the wire format on every writer, what it writes is read back, what it reads is
  valid, and where the two directions disagree.
\<close>

section \<open>Concrete values for the witnesses\<close>

text \<open>The message of the test \<^verbatim>\<open>msg_encode_decode1\<close>.\<close>

definition sample_version :: Msg where
  "sample_version = \<lparr>msg_tag = 0xdead, msg_body = RVersion 40 P92000L\<rparr>"

lemma P92000L_valid: "valid_String P92000L"
  by (simp add: valid_String_def P92000L_def ascii_def)

lemma sample_version_carried: "carried sample_version"
  by (simp add: carried_def sample_version_def empty_dir_def P92000L_valid)

abbreviation growing :: writer where
  "growing \<equiv> \<lparr>written = [], room = None\<rparr>"

section \<open>Encoding\<close>

text \<open>
  C3. Encoding a message on any writer writes the bytes of the wire format and returns
  their number; on a fixed buffer that is too small it fills the buffer with a prefix of
  them and fails.
\<close>

theorem encode_implements_wire_format:
  assumes "crates_laws C"
  shows "write_msg C m w =
    (case room w of
       None \<Rightarrow> (Inr (length (wire_Msg m)), w\<lparr>written := written w @ wire_Msg m\<rparr>)
     | Some n \<Rightarrow>
         if length (wire_Msg m) \<le> n
         then (Inr (length (wire_Msg m)),
               w\<lparr>written := written w @ wire_Msg m, room := Some (n - length (wire_Msg m))\<rparr>)
         else (Inl write_zero, w\<lparr>written := written w @ take n (wire_Msg m), room := Some 0\<rparr>))"
  by (cases "room w")
    (simp_all add: write_msg_def crates_laws.encode_Msg_emit [OF assms] emit_growing emit_fixed)

theorem encode_implements_wire_format_witness:
  "write_msg documented_crates sample_version growing =
     (Inr (length (wire_Msg sample_version)), growing\<lparr>written := wire_Msg sample_version\<rparr>) \<and>
   fst (write_msg documented_crates sample_version \<lparr>written = [], room = Some 3\<rparr>) = Inl write_zero"
  using encode_implements_wire_format
    [OF documented_crates_laws, of sample_version growing]
    encode_implements_wire_format
    [OF documented_crates_laws, of sample_version "\<lparr>written = [], room = Some 3\<rparr>"]
  by (simp add: sample_version_def wire_Msg_def wire_defs)

section \<open>Directory entries\<close>

text \<open>
  The size of a directory listing, as \<^verbatim>\<open>DirEntryData::size\<close> computes it and
  \<^verbatim>\<open>rreaddir\<close> compares it with the client's count, is the number of bytes its entries take
  on the wire, as long as that fits 32 bits.
\<close>

lemma listing_size_is_wire_length:
  assumes "listing_bytes d < 2 ^ 32"
  shows "unat (DirEntryData_size d) = listing_bytes d"
  using assms by (simp add: DirEntryData_size_wire unat_of_nat)

definition sample_listing :: DirEntryData where
  "sample_listing =
     \<lparr>ded_data = [\<lparr>de_qid = \<lparr>qid_typ = 0x80, qid_version = 0, qid_path = 7\<rparr>, de_offset = 0,
        de_typ = 0, de_name = ascii ''.''\<rparr>]\<rparr>"

definition sample_dir_reply :: Msg where
  "sample_dir_reply = \<lparr>msg_tag = 1, msg_body = RReadDir sample_listing\<rparr>"

lemma sample_listing_valid: "list_all valid_DirEntry (ded_data sample_listing)"
  by (simp add: sample_listing_def valid_DirEntry_def valid_QId_def bits_ok_def all_bits_def
      QIdType_flags_def valid_String_def ascii_def)

lemma sample_listing_ne: "ded_data sample_listing \<noteq> []"
  by (simp add: sample_listing_def)

lemma sample_listing_bytes: "listing_bytes sample_listing = 25"
  by (simp add: sample_listing_def listing_bytes_def length_wire_DirEntry ascii_def)

lemma decode_DirEntry_end: "decode_DirEntry C [] = (Inl unexpected_eof, [])"
  by (simp add: decode_DirEntry_def decode_QId_def decode_flags_u8_def decode_u8_def and_then_def
      read_exact_def)

lemma decode_listing_fails:
  assumes "crates_laws C" and "list_all valid_DirEntry (ded_data d)" and "ded_data d \<noteq> []"
    and small: "listing_bytes d < 2 ^ 32"
  shows "decode_DirEntryData C (wire_DirEntryData d) = (Inl unexpected_eof, [])"
proof -
  let ?es = "ded_data d" and ?n = "listing_bytes d"
  have "length ?es < ?n"
    using listing_bytes_ge [of d] assms(3) by (cases ?es) simp_all
  then obtain k where n: "?n = length ?es + Suc k"
    using less_imp_add_positive by (metis add_Suc_right gr0_implies_Suc)
  have "decode_loop (decode_DirEntry C) (length ?es + Suc k) [] (concat (map wire_DirEntry ?es) @ []) =
      decode_loop (decode_DirEntry C) (Suc k) ([] @ ?es) []"
    using assms(2) crates_laws.decode_DirEntry_wire [OF assms(1)]
    by (intro decode_loop_more) (simp add: list_all_iff)
  also have "\<dots> = (Inl unexpected_eof, [])"
    by (simp add: decode_DirEntry_end)
  finally have "decode_loop (decode_DirEntry C) ?n [] (concat (map wire_DirEntry ?es)) =
      (Inl unexpected_eof, [])"
    by (simp only: n append_Nil2)
  moreover have "unat (word_of_nat ?n :: u32) = ?n"
    using small by (simp add: listing_bytes_def unat_of_nat del: length_concat)
  ultimately show ?thesis
    by (simp add: decode_DirEntryData_def wire_DirEntryData_def crates_laws.decode_u32_wire [OF assms(1)]
        del: length_concat)
qed

lemma listing_never_itself:
  assumes "crates_laws C" and "ded_data d \<noteq> []" and "listing_bytes d < 2 ^ 32"
  shows "decode_DirEntryData C (wire_DirEntryData d @ r) \<noteq> (Inr d, r')"
proof
  assume "decode_DirEntryData C (wire_DirEntryData d @ r) = (Inr d, r')"
  then obtain xs s where "decode_loop (decode_DirEntry C) (unat (word_of_nat (listing_bytes d) :: u32)) [] s = (Inr xs, r')"
    and d: "d = DirEntryData_with xs"
    by (auto simp: decode_DirEntryData_def wire_DirEntryData_def crates_laws.decode_u32_wire [OF assms(1)]
        elim!: and_then_InrE)
  then have "length (ded_data d) = listing_bytes d"
    using assms(3) by (auto simp: DirEntryData_with_def unat_of_nat dest!: decode_loop_length)
  then show False using listing_bytes_ge [of d] assms(2) by simp
qed

lemma read_RReadDir:
  assumes "crates_laws C"
  shows "read_msg C (wire_Msg \<lparr>msg_tag = tag, msg_body = RReadDir d\<rparr> @ r) =
    and_then (decode_DirEntryData C) (\<lambda>d'. ok \<lparr>msg_tag = tag, msg_body = RReadDir d'\<rparr>) (wire_DirEntryData d @ r)"
proof -
  have "msg_type_from_u8 C (msg_type_code MT_RReadDir) = Some MT_RReadDir"
    by (simp only: crates_laws.msg_type_from_u8 [OF assms])
  then show ?thesis
    by (simp add: wire_Msg_def read_msg_def decode_Msg_def Let_def crates_laws.decode_u8_wire [OF assms]
        crates_laws.decode_u16_wire [OF assms] and_then_assoc)
qed

lemma written_listing_is_cut_off:
  assumes "crates_laws C" and "list_all valid_DirEntry (ded_data d)" and "ded_data d \<noteq> []"
    and "listing_bytes d < 2 ^ 32"
  shows "fst (read_msg C (wire_Msg \<lparr>msg_tag = tag, msg_body = RReadDir d\<rparr>)) = Inl unexpected_eof"
  using read_RReadDir [OF assms(1), of tag d "[]"] decode_listing_fails [OF assms] by simp

text \<open>The messages that are read back as what was written.\<close>

lemma read_back_iff:
  assumes "crates_laws C" and "\<And>d. msg_body m = RReadDir d \<Longrightarrow> listing_bytes d < 2 ^ 32"
  shows "read_msg C (wire_Msg m @ r) = (Inr m, r) \<longleftrightarrow> carried m"
proof
  assume read: "read_msg C (wire_Msg m @ r) = (Inr m, r)"
  then have "valid_fcall (msg_body m)"
    unfolding read_msg_def by (rule crates_laws.decode_Msg_valid [OF assms(1)])
  moreover have "ded_data d = []" if d: "msg_body m = RReadDir d" for d
  proof (rule ccontr)
    assume "ded_data d \<noteq> []"
    from listing_never_itself [OF assms(1) this assms(2) [OF d]] show False
      using read read_RReadDir [OF assms(1), of "msg_tag m" d r] d
      by (cases m) (auto elim!: and_then_InrE)
  qed
  ultimately show "carried m"
    by (simp add: carried_def empty_dir_def split: fcall.splits)
next
  assume "carried m"
  then show "read_msg C (wire_Msg m @ r) = (Inr m, r)"
    by (simp add: read_msg_def crates_laws.decode_Msg_wire [OF assms(1)])
qed

lemma write_growing:
  assumes "crates_laws C" and "room w = None" and "written w = []"
  shows "\<exists>w'. write_msg C m w = (Inr (length (wire_Msg m)), w') \<and> written w' = wire_Msg m"
  using assms(2,3) by (simp add: write_msg_def crates_laws.encode_Msg_emit [OF assms(1)] emit_growing)

section \<open>Round trips\<close>

text \<open>
  C1. Which messages survive the wire. A message written to an empty growing buffer is read
  back unchanged, with the bytes that follow it left unread, exactly when its strings are
  UTF-8 below 64 KiB, its lists and data are within their counts, its flags have declared
  bits only, and it is not a directory reply with entries in it. (Of a directory reply the
  entries are assumed to take less than 4 GiB.)
\<close>

theorem message_round_trip:
  assumes "crates_laws C" and "room w = None" and "written w = []"
    and "\<And>d. msg_body m = RReadDir d \<Longrightarrow> listing_bytes d < 2 ^ 32"
  shows "\<exists>n w'. write_msg C m w = (Inr n, w') \<and> n = length (written w') \<and>
     (read_msg C (written w' @ r) = (Inr m, r) \<longleftrightarrow> valid_fcall (msg_body m) \<and> empty_dir (msg_body m))"
  using write_growing [OF assms(1-3), of m] read_back_iff [OF assms(1,4), of m r]
  by (auto simp: carried_def)

theorem message_round_trip_witness:
  "(\<exists>n w'. write_msg documented_crates sample_version growing = (Inr n, w') \<and> n = length (written w') \<and>
      read_msg documented_crates (written w' @ [1, 2]) = (Inr sample_version, [1, 2])) \<and>
   (\<exists>n w'. write_msg documented_crates sample_dir_reply growing = (Inr n, w') \<and>
      read_msg documented_crates (written w' @ [1, 2]) \<noteq> (Inr sample_dir_reply, [1, 2]))"
proof (rule conjI)
  from message_round_trip [OF documented_crates_laws, of growing sample_version "[1, 2]"] sample_version_carried
  show "\<exists>n w'. write_msg documented_crates sample_version growing = (Inr n, w') \<and> n = length (written w') \<and>
      read_msg documented_crates (written w' @ [1, 2]) = (Inr sample_version, [1, 2])"
    by (simp add: carried_def sample_version_def)
  from message_round_trip [OF documented_crates_laws, of growing sample_dir_reply "[1, 2]"] sample_listing_bytes
  show "\<exists>n w'. write_msg documented_crates sample_dir_reply growing = (Inr n, w') \<and>
      read_msg documented_crates (written w' @ [1, 2]) \<noteq> (Inr sample_dir_reply, [1, 2])"
    by (auto simp: sample_dir_reply_def empty_dir_def sample_listing_ne)
qed

text \<open>
  The encodings of two carried messages that start the same byte stream belong to the
  same message: a stream is cut into messages one way only.
\<close>

lemma wire_unambiguous:
  assumes "crates_laws C" and "carried m" and "carried m'"
    and "write_msg C m w = (Inr n, w1)" and "write_msg C m' w = (Inr n', w2)"
    and "written w1 @ r = written w2 @ r'"
  shows "m = m' \<and> r = r'"
proof -
  note codec = crates_laws.Msg_codec [OF assms(1)]
  have "written w1 = written w @ wire_Msg m" and "written w2 = written w @ wire_Msg m'"
    using assms(4,5) by (auto simp: write_msg_def crates_laws.encode_Msg_emit [OF assms(1)] dest: emit_InrD)
  with assms(6) have "wire_Msg m @ r = wire_Msg m' @ r'" by simp
  then show ?thesis
    using codec.wire_prefix_free [OF codec assms(2,3)] by blast
qed

text \<open>
  C28. A message with strings below 64 KiB and lists and data within their counts, cut off
  anywhere before its last byte, is reported as an unexpected end of the input; it is never
  read as another message or another error. This includes directory replies with entries.
\<close>

theorem cut_off_message_is_eof:
  assumes "crates_laws C" and "valid_fcall (msg_body m)" and "n < length (wire_Msg m)"
    and "\<And>d. msg_body m = RReadDir d \<Longrightarrow> listing_bytes d < 2 ^ 32"
  shows "fst (read_msg C (take n (wire_Msg m))) = Inl unexpected_eof"
proof (cases "empty_dir (msg_body m)")
  case True
  note codec = crates_laws.Msg_codec [OF assms(1)]
  have "wire_Msg m = take n (wire_Msg m) @ drop n (wire_Msg m)" and "drop n (wire_Msg m) \<noteq> []"
    using assms(3) by simp_all
  moreover have "carried m" using True assms(2) by (simp add: carried_def)
  ultimately show ?thesis
    unfolding read_msg_def by (blast intro: codec.decode_cut_off [OF codec])
next
  case False
  then obtain d where d: "msg_body m = RReadDir d" "ded_data d \<noteq> []"
    by (auto simp: empty_dir_def split: fcall.splits)
  then have whole: "fst (read_msg C (take n (wire_Msg m) @ drop n (wire_Msg m))) = Inl unexpected_eof"
    using written_listing_is_cut_off [OF assms(1) _ d(2) assms(4) [OF d(1)], of "msg_tag m"] assms(2)
    by (cases m) (simp add: valid_DirEntryData_def)
  obtain res r where res: "read_msg C (take n (wire_Msg m)) = (res, r)" by fastforce
  note parser = parser_Msg [of C, folded read_msg_def]
  show ?thesis
  proof (cases res)
    case (Inl e)
    with parser_Inl_append [OF parser, of "take n (wire_Msg m)" e r "drop n (wire_Msg m)"] res whole
    show ?thesis by (cases "e = unexpected_eof") simp_all
  next
    case (Inr y)
    with parser_Inr_append [OF parser, of "take n (wire_Msg m)" y r "drop n (wire_Msg m)"] res whole show ?thesis by simp
  qed
qed

theorem cut_off_message_is_eof_witness:
  "fst (read_msg documented_crates (take 5 (wire_Msg sample_version))) = Inl unexpected_eof \<and>
   fst (read_msg documented_crates (take 30 (wire_Msg sample_dir_reply))) = Inl unexpected_eof"
proof (rule conjI)
  show "fst (read_msg documented_crates (take 5 (wire_Msg sample_version))) = Inl unexpected_eof"
    by (rule cut_off_message_is_eof [OF documented_crates_laws])
      (use sample_version_carried in \<open>simp_all add: sample_version_def wire_Msg_def wire_defs carried_def\<close>)
  show "fst (read_msg documented_crates (take 30 (wire_Msg sample_dir_reply))) = Inl unexpected_eof"
    by (rule cut_off_message_is_eof [OF documented_crates_laws])
      (use sample_listing_valid sample_listing_bytes in \<open>simp_all add: sample_dir_reply_def wire_Msg_def
         wire_DirEntryData_def listing_bytes_def valid_DirEntryData_def sample_listing_def\<close>)
qed

text \<open>
  Reading is streaming: a message rests on the bytes that were consumed, a prefix of
  the input, and is the same whatever follows them.
\<close>

lemma read_consumes_a_prefix:
  assumes "read_msg C s = (Inr m, r)"
  shows "\<exists>p. s = p @ r \<and> (\<forall>t. read_msg C (p @ t) = (Inr m, t))"
  using parser_Msg assms unfolding read_msg_def by (rule parser_InrE) blast

text \<open>
  C27. Whatever bytes arrive, a message that is read is well formed: its strings are UTF-8
  shorter than 64 KiB, its lists and its data are within their counts, and its flags are
  among the declared bits.
\<close>

theorem read_messages_are_valid:
  assumes "crates_laws C" and "read_msg C s = (Inr m, r)"
  shows "valid_fcall (msg_body m)"
  using assms unfolding read_msg_def by (rule crates_laws.decode_Msg_valid)

theorem read_messages_are_valid_witness: "valid_fcall (msg_body sample_version)"
  by (rule read_messages_are_valid [OF documented_crates_laws, of "wire_Msg sample_version" _ "[]"])
    (use documented.decode_Msg_wire [OF sample_version_carried, of "[]"] in \<open>simp add: read_msg_def\<close>)

text \<open>
  C31. A message that was read is written and read back as the same message, although the
  bytes may differ (undeclared flag bits and the reserved fields are dropped), exactly when
  it is not a directory reply with entries in it (whose entries are assumed to take less
  than 4 GiB).
\<close>

theorem read_write_read:
  assumes "crates_laws C" and "read_msg C s = (Inr m, r)"
    and "\<And>d. msg_body m = RReadDir d \<Longrightarrow> listing_bytes d < 2 ^ 32"
    and "write_msg C m growing = (Inr n, w)"
  shows "read_msg C (written w @ t) = (Inr m, t) \<longleftrightarrow> empty_dir (msg_body m)"
proof -
  have "valid_fcall (msg_body m)"
    using crates_laws.decode_Msg_valid [OF assms(1)] assms(2) by (simp add: read_msg_def)
  moreover have "written w = wire_Msg m"
    using assms(4) by (auto simp: write_msg_def crates_laws.encode_Msg_emit [OF assms(1)] dest: emit_InrD)
  ultimately show ?thesis
    using read_back_iff [OF assms(1,3), of m t] by (simp add: carried_def)
qed

text \<open>A lock reply with the undeclared bit 4 set is read as the status 1.\<close>

theorem read_write_read_witness:
  "read_msg documented_crates [53, 1, 0, 5] = (Inr \<lparr>msg_tag = 1, msg_body = RLock 1\<rparr>, []) \<and>
   read_msg documented_crates ([53, 1, 0, 1] @ [8]) = (Inr \<lparr>msg_tag = 1, msg_body = RLock 1\<rparr>, [8])"
proof -
  have r: "read_msg documented_crates [53, 1, 0, 5] = (Inr \<lparr>msg_tag = 1, msg_body = RLock 1\<rparr>, [])"
    by code_simp
  have w: "write_msg documented_crates \<lparr>msg_tag = 1, msg_body = RLock 1\<rparr> growing =
      (Inr 4, growing\<lparr>written := [53, 1, 0, 1]\<rparr>)"
    by code_simp
  show ?thesis
    using r read_write_read [OF documented_crates_laws r _ w, of "[8]"]
    by (simp add: empty_dir_def)
qed

text \<open>
  C32. The two directions of a directory reply disagree: the encoder puts the number of
  bytes of the entries in front of them, the decoder takes that number for the count of
  entries. A non-empty listing that was written can therefore never be read back: reading
  it runs into the end of the input.
\<close>

theorem listing_is_not_read_back:
  assumes "crates_laws C" and "list_all valid_DirEntry (ded_data d)" and "ded_data d \<noteq> []"
    and "length (concat (map wire_DirEntry (ded_data d))) < 2 ^ 32"
    and "write_msg C \<lparr>msg_tag = tag, msg_body = RReadDir d\<rparr> growing = (Inr n, w)"
  shows "fst (read_msg C (written w)) = Inl unexpected_eof"
  using written_listing_is_cut_off [OF assms(1-3), of tag] assms(4,5)
  by (auto simp: listing_bytes_def write_msg_def crates_laws.encode_Msg_emit [OF assms(1)] dest: emit_InrD)

theorem listing_is_not_read_back_witness:
  "fst (read_msg documented_crates (wire_Msg \<lparr>msg_tag = 1, msg_body = RReadDir sample_listing\<rparr>)) =
     Inl unexpected_eof"
proof -
  let ?m = "\<lparr>msg_tag = 1, msg_body = RReadDir sample_listing\<rparr>"
  have w: "write_msg documented_crates ?m growing =
      (Inr (length (wire_Msg ?m)), growing\<lparr>written := wire_Msg ?m\<rparr>)"
    by (simp add: write_msg_def documented.encode_Msg_emit emit_growing)
  show ?thesis
    using listing_is_not_read_back [OF documented_crates_laws sample_listing_valid _ _ w] sample_listing_bytes
    by (simp add: sample_listing_def listing_bytes_def)
qed

section \<open>The operator of the decoder\<close>

text \<open>
  A \<^verbatim>\<open>Decoder\<close> is its reader; the variables the caller lends to \<^verbatim>\<open>>>\<close> are \<open>'v\<close>, and \<open>store\<close>
  is the assignment to one of them. After an error the variables stored so far keep their
  values, and nothing more is read.
\<close>

type_synonym 'v decoding = "('v \<times> bytes, io_error, unit) comp"

definition decoder_new :: "'v decoding" where
  "decoder_new = ok ()"

definition shr :: "'v decoding \<Rightarrow> 'a reader \<Rightarrow> ('a \<Rightarrow> 'v \<Rightarrow> 'v) \<Rightarrow> 'v decoding" where
  "shr decoder dec store =
     and_then decoder (\<lambda>_ (v, r). case dec r of
        (Inl e, r') \<Rightarrow> (Inl e, (v, r'))
      | (Inr x, r') \<Rightarrow> (Inr (), (store x v, r')))"

context codec begin

lemma shr_wire:
  "decoder s = (Inr (), (v, wire x @ r)) \<Longrightarrow> valid x \<Longrightarrow> shr decoder dec store s = (Inr (), (store x v, r))"
  by (simp add: shr_def and_then_def decode_wire)

end

text \<open>What two operators \<^verbatim>\<open><<\<close> write, two operators \<^verbatim>\<open>>>\<close> read back.\<close>

lemma operators_round_trip:
  assumes "crates_laws C" and "carried m" and "carried m'"
    and "shl (shl encoder_new (encode_Msg C m)) (encode_Msg C m') growing = (Inr n, w)"
  shows "n = length (written w)"
    and "shr (shr decoder_new (decode_Msg C) (\<lambda>x (_, y). (x, y))) (decode_Msg C) (\<lambda>y (x, _). (x, y))
      (v, written w @ r) = (Inr (), ((m, m'), r))"
proof -
  have "emit (wire_Msg m @ wire_Msg m') growing = (Inr n, w)"
    using assms(4)
    by (simp add: crates_laws.encode_Msg_emit [OF assms(1)] encoder_new_emit shl_emit)
  from emit_InrD [OF this] have w: "n = length (wire_Msg m @ wire_Msg m')" "written w = wire_Msg m @ wire_Msg m'"
    by simp_all
  then show "n = length (written w)" by simp
  show "shr (shr decoder_new (decode_Msg C) (\<lambda>x (_, y). (x, y))) (decode_Msg C) (\<lambda>y (x, _). (x, y))
      (v, written w @ r) = (Inr (), ((m, m'), r))"
    by (simp add: w(2) shr_def decoder_new_def and_then_def ok_def split_beta
        crates_laws.decode_Msg_wire [OF assms(1,2)] crates_laws.decode_Msg_wire [OF assms(1,3)])
qed

section \<open>Errors\<close>

text \<open>
  Reading fails in three ways only: the input ends, a string is not UTF-8, or the type
  byte is not that of a message.
\<close>

lemma read_error_kinds:
  assumes "read_msg C s = (Inl e, r)"
  shows "e = unexpected_eof \<or> e = Custom Other ''Invalid UTF-8 sequence'' \<or>
     e = Custom Other ''Invalid message type''"
  using errors_Msg [of C] assms unfolding fails_with_def decode_errors_def read_msg_def by blast

lemma from_unknown_type:
  assumes "crates_laws C" and "b \<notin> msg_type_code ` (- {MT_TlError})"
  shows "(case msg_type_from_u8 C b of Some mt \<Rightarrow> decode_body C mt | None \<Rightarrow> invalid_message_type) =
    invalid_message_type"
proof (cases "msg_type_from_u8 C b")
  case (Some t)
  then have "msg_type_code t = b" using crates_laws.msg_type_from_u8 [OF assms(1)] by simp
  with assms(2) have "t = MT_TlError" by auto
  with Some show ?thesis by (simp add: decode_9P2000_def)
qed simp

text \<open>
  A message whose type byte is not that of a message (or is the reserved \<^verbatim>\<open>TlError\<close>)
  is refused after its type and tag; its body is not looked at.
\<close>

lemma unknown_type_is_refused:
  assumes "crates_laws C" and "b \<notin> msg_type_code ` (- {MT_TlError})"
  shows "read_msg C (b # wire_u16 tag @ body) = (Inl (Custom Other ''Invalid message type''), body)"
proof -
  have "decode_u8 C (b # wire_u16 tag @ body) = (Inr b, wire_u16 tag @ body)"
    using crates_laws.decode_u8_wire [OF assms(1), of b "wire_u16 tag @ body"] by (simp add: wire_u8_def)
  then show ?thesis
    by (simp add: read_msg_def decode_Msg_def Let_def from_unknown_type [OF assms]
        crates_laws.decode_u16_wire [OF assms(1)] invalid_message_type_def)
qed

section \<open>Strings that do not fit their count\<close>

text \<open>
  C35. The length of a string is cut to 16 bits without a check. A string of 64 KiB or more
  is written with its length modulo \<open>2 ^ 16\<close> and read as the prefix of that many bytes, or
  refused when the cut falls inside a character; the rest of it stays in the stream as if it
  were the next field.
\<close>

theorem long_string_is_cut:
  assumes "crates_laws C" and "2 ^ 16 \<le> length s" and "encode_String C s growing = (Inr n, w)"
  shows "n = 2 + length s \<and>
    decode_String C (written w @ r) =
     (if utf8_valid (take (length s mod 2 ^ 16) s) then Inr (take (length s mod 2 ^ 16) s)
      else Inl (Custom Other ''Invalid UTF-8 sequence''),
      drop (length s mod 2 ^ 16) s @ r)"
proof -
  let ?k = "length s mod 2 ^ 16"
  have k: "?k \<le> length s" by (rule mod_less_eq_dividend)
  have "written w = wire_String s" "n = length (wire_String s)"
    using assms(3) by (auto simp: crates_laws.encode_String_emit [OF assms(1)] dest: emit_InrD)
  then show ?thesis
    using k
    by (simp add: wire_String_def decode_String_def crates_laws.decode_u16_wire [OF assms(1)]
        unat_of_nat read_exact_def and_then_def ok_def fail_def)
qed

theorem long_string_is_cut_witness:
  "decode_String documented_crates (wire_String (replicate 65537 0x41)) =
     (Inr [0x41], replicate 65536 0x41) \<and>
   decode_String documented_crates (wire_String (0xC3 # 0xA9 # replicate 65535 0x41)) =
     (Inl (Custom Other ''Invalid UTF-8 sequence''), 0xA9 # replicate 65535 0x41)"
proof -
  let ?s = "replicate 65537 (0x41 :: u8)" and ?t = "0xC3 # 0xA9 # replicate 65535 (0x41 :: u8)"
  have w: "encode_String documented_crates s growing =
      (Inr (length (wire_String s)), growing\<lparr>written := wire_String s\<rparr>)" for s
    by (simp add: documented.encode_String_emit emit_growing)
  have s: "take (length ?s mod 2 ^ 16) ?s = [0x41]" "drop (length ?s mod 2 ^ 16) ?s = replicate 65536 0x41"
    by (simp_all add: take_replicate drop_replicate)
  have t: "take (length ?t mod 2 ^ 16) ?t = [0xC3]" "drop (length ?t mod 2 ^ 16) ?t = 0xA9 # replicate 65535 0x41"
    by (simp_all add: take_replicate drop_replicate)
  show ?thesis
    using long_string_is_cut [OF documented_crates_laws _ w [of ?s], of "[]", unfolded s]
      long_string_is_cut [OF documented_crates_laws _ w [of ?t], of "[]", unfolded t]
    by simp
qed

section \<open>Room for headers\<close>

text \<open>
  Around its data a write request takes 23 bytes and a read reply 11 bytes, the length
  field of the frame included: both are within \<^verbatim>\<open>IOHDRSZ\<close>.
\<close>

lemma io_headers_fit:
  "4 + length (wire_Msg \<lparr>msg_tag = tag, msg_body = TWrite fid offset (Data b)\<rparr>) = 23 + length b \<and>
   4 + length (wire_Msg \<lparr>msg_tag = tag, msg_body = RRead (Data b)\<rparr>) = 11 + length b \<and>
   23 \<le> unat IOHDRSZ"
  by (simp add: wire_Msg_def IOHDRSZ_def)

end
