(* ===== verification/Errors.thy ===== *)
theory Errors
  imports Prelude
begin

text \<open>
  The errors of the server, \<^verbatim>\<open>crates/rs9p/src/error.rs\<close>: an error holds an errno or an
  I/O error, and every error has an errno, which \<^verbatim>\<open>RlError\<close> carries to the client. The
  crate \<^verbatim>\<open>nix\<close> is a parameter: its conversion from raw error numbers and the number of a
  variant.
\<close>

text \<open>The variants of \<^verbatim>\<open>nix::errno::Errno\<close> the program names, and the others.\<close>

datatype (plugins only: code size) errno =
    ENOENT | EPERM | ECONNREFUSED | ECONNRESET | ECONNABORTED | ENOTCONN | EADDRINUSE
  | EADDRNOTAVAIL | EPIPE | EALREADY | EAGAIN | EINVAL | ETIMEDOUT | EINTR | EIO
  | EBADF | EPROTO | EOPNOTSUPP | ELOOP | OtherErrno string

record nix =
  errno_from_raw :: "int \<Rightarrow> errno"  \<comment> \<open>\<^verbatim>\<open>Errno::from_raw\<close>\<close>
  errno_as_u32 :: "errno \<Rightarrow> u32"    \<comment> \<open>\<^verbatim>\<open>errno as u32\<close>\<close>

text \<open>The match on \<^verbatim>\<open>e.kind()\<close>.\<close>

definition kind_errno :: "io_kind \<Rightarrow> errno" where
  "kind_errno k =
     (case k of
        NotFound \<Rightarrow> ENOENT
      | PermissionDenied \<Rightarrow> EPERM
      | ConnectionRefused \<Rightarrow> ECONNREFUSED
      | ConnectionReset \<Rightarrow> ECONNRESET
      | ConnectionAborted \<Rightarrow> ECONNABORTED
      | NotConnected \<Rightarrow> ENOTCONN
      | AddrInUse \<Rightarrow> EADDRINUSE
      | AddrNotAvailable \<Rightarrow> EADDRNOTAVAIL
      | BrokenPipe \<Rightarrow> EPIPE
      | AlreadyExists \<Rightarrow> EALREADY
      | WouldBlock \<Rightarrow> EAGAIN
      | InvalidInput \<Rightarrow> EINVAL
      | InvalidData \<Rightarrow> EINVAL
      | TimedOut \<Rightarrow> ETIMEDOUT
      | WriteZero \<Rightarrow> EAGAIN
      | Interrupted \<Rightarrow> EINTR
      | _ \<Rightarrow> EIO)"

definition errno_from_io_error :: "nix \<Rightarrow> io_error \<Rightarrow> errno" where
  "errno_from_io_error N e =
     (case e of
        Os n \<Rightarrow> errno_from_raw N n
      | Simple k \<Rightarrow> kind_errno k
      | Custom k msg \<Rightarrow> kind_errno k)"

datatype error = No errno | Io io_error

primrec error_errno :: "nix \<Rightarrow> error \<Rightarrow> errno" where
  "error_errno N (No e) = e"
| "error_errno N (Io e) = errno_from_io_error N e"

text \<open>\<^verbatim>\<open>From<io::Error>\<close>, \<^verbatim>\<open>From<&io::Error>\<close> and \<^verbatim>\<open>From<nix::Error>\<close>.\<close>

definition error_from_io :: "io_error \<Rightarrow> error" where
  "error_from_io e = Io e"

definition error_from_io_ref :: "nix \<Rightarrow> io_error \<Rightarrow> error" where
  "error_from_io_ref N e = No (errno_from_io_error N e)"

definition error_from_nix :: "errno \<Rightarrow> error" where
  "error_from_nix e = No e"

text \<open>
  \<^verbatim>\<open>Display\<close> and \<^verbatim>\<open>source\<close>; the texts of \<^verbatim>\<open>nix\<close> (\<^verbatim>\<open>desc\<close>) and of the standard library for an
  error are arguments.
\<close>

definition error_display :: "(errno \<Rightarrow> string) \<Rightarrow> (io_error \<Rightarrow> string) \<Rightarrow> error \<Rightarrow> string" where
  "error_display desc io_text err =
     (case err of No e \<Rightarrow> ''System error: '' @ desc e | Io e \<Rightarrow> ''I/O error: '' @ io_text e)"

definition error_source :: "error \<Rightarrow> io_error option" where
  "error_source err = (case err of No e \<Rightarrow> None | Io e \<Rightarrow> Some e)"

text \<open>
  The numbers the variants have on Linux, and \<^verbatim>\<open>from_raw\<close> as their inverse: an instance
  of the parameter for the witnesses.
\<close>

definition linux_errno :: "errno \<Rightarrow> u32" where
  "linux_errno e =
     (case e of
        EPERM \<Rightarrow> 1 | ENOENT \<Rightarrow> 2 | EINTR \<Rightarrow> 4 | EIO \<Rightarrow> 5 | EBADF \<Rightarrow> 9 | EAGAIN \<Rightarrow> 11 | EINVAL \<Rightarrow> 22
      | EPIPE \<Rightarrow> 32 | ELOOP \<Rightarrow> 40 | EPROTO \<Rightarrow> 71 | EOPNOTSUPP \<Rightarrow> 95 | EADDRINUSE \<Rightarrow> 98
      | EADDRNOTAVAIL \<Rightarrow> 99 | ECONNABORTED \<Rightarrow> 103 | ECONNRESET \<Rightarrow> 104 | ENOTCONN \<Rightarrow> 107
      | ETIMEDOUT \<Rightarrow> 110 | ECONNREFUSED \<Rightarrow> 111 | EALREADY \<Rightarrow> 114 | OtherErrno s \<Rightarrow> 0)"

definition linux_nix :: nix where
  "linux_nix =
     \<lparr>errno_from_raw = (\<lambda>n. if n = 2 then ENOENT else if n = 13 then OtherErrno ''EACCES'' else EIO),
      errno_as_u32 = linux_errno\<rparr>"

text \<open>
  The kind the standard library gives to an error of the operating system with one of these
  numbers (\<^verbatim>\<open>decode_error_kind\<close> on Unix), where it is one the program names. The reference
  for the match above, which goes the other way.
\<close>

definition os_kind :: "errno \<Rightarrow> io_kind option" where
  "os_kind e =
     (case e of
        EPERM \<Rightarrow> Some PermissionDenied
      | ENOENT \<Rightarrow> Some NotFound
      | EINTR \<Rightarrow> Some Interrupted
      | EAGAIN \<Rightarrow> Some WouldBlock
      | EINVAL \<Rightarrow> Some InvalidInput
      | EPIPE \<Rightarrow> Some BrokenPipe
      | EADDRINUSE \<Rightarrow> Some AddrInUse
      | EADDRNOTAVAIL \<Rightarrow> Some AddrNotAvailable
      | ECONNABORTED \<Rightarrow> Some ConnectionAborted
      | ECONNRESET \<Rightarrow> Some ConnectionReset
      | ENOTCONN \<Rightarrow> Some NotConnected
      | ETIMEDOUT \<Rightarrow> Some TimedOut
      | ECONNREFUSED \<Rightarrow> Some ConnectionRefused
      | _ \<Rightarrow> None)"

lemma kind_of_errno: "os_kind e = Some k \<Longrightarrow> kind_errno k = e"
  by (cases e) (auto simp: os_kind_def kind_errno_def)

lemma errno_of_kind:
  "kind_errno k = EIO \<or> os_kind (kind_errno k) = Some k \<or> k \<in> {AlreadyExists, InvalidData, WriteZero}"
  by (cases k) (simp_all add: os_kind_def kind_errno_def)



end
