(* ===== verification/Future.thy ===== *)
theory Future
  imports Prelude
begin

text \<open>
  Futures, the values of Rust's \<^verbatim>\<open>async\<close> blocks: a computation on a state \<open>'s\<close> shared with
  other tasks, in atomic pieces between which any of them may run. A piece ends where the
  source awaits: at a lock that may be taken or at a call of the host. A future says at each
  point which lock it waits for and which locks it holds there.
\<close>

named_theorems steady_intros "futures that keep an invariant and a guarantee"

named_theorems tidy_intros "futures that take one lock at a time and give it back"

section \<open>Locks\<close>

text \<open>
  A lock is addressed by the data it is in and the name of its field. A \<^verbatim>\<open>RwLock\<close> is taken
  shared by \<^verbatim>\<open>read\<close> and exclusively by \<^verbatim>\<open>write\<close>, a \<^verbatim>\<open>Mutex\<close> exclusively by \<^verbatim>\<open>lock\<close>.
\<close>

type_synonym lock = "nat \<times> string"

datatype access =
    Shared lock
  | Exclusive lock

fun conflicts :: "access \<Rightarrow> access \<Rightarrow> bool" where
  "conflicts (Shared l) (Shared l') \<longleftrightarrow> False"
| "conflicts (Shared l) (Exclusive l') \<longleftrightarrow> l = l'"
| "conflicts (Exclusive l) (Shared l') \<longleftrightarrow> l = l'"
| "conflicts (Exclusive l) (Exclusive l') \<longleftrightarrow> l = l'"

lemma conflicts_sym: "conflicts a b \<longleftrightarrow> conflicts b a"
  by (cases a; cases b) auto

text \<open>Whether a lock can be taken while those of a list are held.\<close>

definition lock_free :: "access option \<Rightarrow> access list \<Rightarrow> bool" where
  "lock_free want held =
     (case want of None \<Rightarrow> True | Some a \<Rightarrow> list_all (\<lambda>h. \<not> conflicts a h) held)"

lemma lock_free_simps [simp]: "lock_free None held" "lock_free want []"
  by (simp_all add: lock_free_def split: option.splits)

section \<open>Futures and their composition\<close>

text \<open>
  \<open>Await want held upd next\<close> is a point at which the locks \<open>held\<close> are held. Once \<open>want\<close> can be
  taken, if it waits for one, it runs a piece on the state \<open>s\<close> it finds, leaves \<open>upd s\<close> and
  goes on with \<open>next s\<close>. A lock that is not held at the next point was released in the piece.
\<close>

datatype ('s, 'a) future =
    Ready 'a
  | Await "access option" "access list" "'s \<Rightarrow> 's" "'s \<Rightarrow> ('s, 'a) future"

primrec wants :: "('s, 'a) future \<Rightarrow> access option" where
  "wants (Ready x) = None"
| "wants (Await w h upd nxt) = w"

primrec holds :: "('s, 'a) future \<Rightarrow> access list" where
  "holds (Ready x) = []"
| "holds (Await w h upd nxt) = h"

text \<open>One piece: without a lock, or under one that is taken and released with it.\<close>

definition one_piece :: "access option \<Rightarrow> ('s \<Rightarrow> 'a \<times> 's) \<Rightarrow> ('s, 'a) future" where
  "one_piece want c = Await want [] (\<lambda>s. snd (c s)) (\<lambda>s. Ready (fst (c s)))"

abbreviation atomically :: "('s \<Rightarrow> 'a \<times> 's) \<Rightarrow> ('s, 'a) future" where
  "atomically c \<equiv> one_piece None c"

abbreviation locked :: "access \<Rightarrow> ('s \<Rightarrow> 'a \<times> 's) \<Rightarrow> ('s, 'a) future" where
  "locked a c \<equiv> one_piece (Some a) c"

text \<open>A future run while a lock is held, up to its end.\<close>

primrec holding :: "access \<Rightarrow> ('s, 'a) future \<Rightarrow> ('s, 'a) future" where
  "holding a (Ready x) = Ready x"
| "holding a (Await w h upd nxt) = Await w (a # h) upd (\<lambda>s. holding a (nxt s))"

text \<open>\<^verbatim>\<open>.await\<close> of one future inside another, and \<^verbatim>\<open>.await?\<close>.\<close>

primrec await :: "('s, 'a) future \<Rightarrow> ('a \<Rightarrow> ('s, 'b) future) \<Rightarrow> ('s, 'b) future" where
  "await (Ready x) k = k x"
| "await (Await w h upd nxt) k = Await w h upd (\<lambda>s. await (nxt s) k)"

definition await_ok ::
  "('s, 'e + 'a) future \<Rightarrow> ('a \<Rightarrow> ('s, 'e + 'b) future) \<Rightarrow> ('s, 'e + 'b) future" where
  "await_ok p k = await p (\<lambda>r. case r of Inl e \<Rightarrow> Ready (Inl e) | Inr x \<Rightarrow> k x)"

lemma await_ok_simps [simp]:
  "await_ok (Ready (Inl e)) k = Ready (Inl e)" "await_ok (Ready (Inr x)) k = k x"
  "await_ok (Await w h upd nxt) k = Await w h upd (\<lambda>s. await_ok (nxt s) k)"
  by (simp_all add: await_ok_def)

lemma await_ok_assoc: "await_ok (await_ok p k) k' = await_ok p (\<lambda>x. await_ok (k x) k')"
proof (induction p)
  case (Ready r)
  show ?case by (cases r) simp_all
qed simp

text \<open>
  A section under a lock: it takes the lock and runs the piece \<open>c\<close>, and holds the lock over
  all that follows it.
\<close>

definition under ::
  "access \<Rightarrow> ('s \<Rightarrow> ('e + 'a) \<times> 's) \<Rightarrow> ('a \<Rightarrow> ('s, 'e + 'b) future) \<Rightarrow> ('s, 'e + 'b) future" where
  "under a c k = await_ok (locked a c) (\<lambda>x. holding a (k x))"

section \<open>Running a future alone\<close>

text \<open>A plain result as a computation, the future \<open>Ready\<close> without other tasks.\<close>

definition returns :: "'a \<Rightarrow> 's \<Rightarrow> 'a \<times> 's" where
  "returns r s = (r, s)"

lemma returns_simps [simp]: "returns (Inl e) = fail e" "returns (Inr x) = ok x"
  by (simp_all add: fun_eq_iff returns_def fail_def ok_def)

text \<open>Alone it never waits for a lock.\<close>

primrec run :: "('s, 'a) future \<Rightarrow> 's \<Rightarrow> 'a \<times> 's" where
  "run (Ready x) = returns x"
| "run (Await w h upd nxt) = (\<lambda>s. run (nxt s) (upd s))"

lemma run_await: "run (await p k) s = (case run p s of (x, s') \<Rightarrow> run (k x) s')"
  by (induction p arbitrary: s) (simp_all add: returns_def)

lemma run_await_ok [simp]: "run (await_ok p k) = and_then (run p) (\<lambda>x. run (k x))"
  by (rule ext) (auto simp: await_ok_def run_await and_then_def fail_def split: prod.splits sum.splits)

lemma run_piece [simp]: "run (one_piece w c) = c"
  by (rule ext) (simp add: one_piece_def returns_def)

lemma run_holding [simp]: "run (holding a p) = run p"
  by (induction p) simp_all

lemma run_under [simp]: "run (under a c k) = and_then c (\<lambda>x. run (k x))"
  by (simp add: under_def)

lemma run_ready: "run \<circ> Ready = returns"
  by (rule ext) simp

section \<open>One piece leads to the next\<close>

inductive later :: "('s, 'a) future \<Rightarrow> ('s, 'a) future \<Rightarrow> bool" where
  later: "later (nxt s) (Await w h upd nxt)"

inductive_simps later_simps [simp]: "later p (Ready x)" "later p (Await w h upd nxt)"

text \<open>No future runs for ever, however its state is changed in between.\<close>

lemma wfp_later: "wfp later"
proof (rule wfpUNIVI)
  fix P :: "('a, 'b) future \<Rightarrow> bool" and p
  assume step: "\<forall>p. (\<forall>q. later q p \<longrightarrow> P q) \<longrightarrow> P p"
  show "P p"
  proof (induction p)
    case (Ready x)
    show ?case using step by simp
  next
    case (Await w h upd nxt)
    then have "\<forall>q. later q (Await w h upd nxt) \<longrightarrow> P q" by auto
    then show ?case using step by blast
  qed
qed

section \<open>What a future keeps\<close>

text \<open>
  \<open>steady I R Q p\<close>: as long as the other tasks keep \<open>I\<close>, every piece of \<open>p\<close> keeps \<open>I\<close> and
  relates the states around it by \<open>R\<close>, and the result satisfies \<open>Q\<close>.
\<close>

primrec steady ::
  "('s \<Rightarrow> bool) \<Rightarrow> ('s \<Rightarrow> 's \<Rightarrow> bool) \<Rightarrow> ('a \<Rightarrow> bool) \<Rightarrow> ('s, 'a) future \<Rightarrow> bool" where
  "steady I R Q (Ready x) = Q x"
| "steady I R Q (Await w h upd nxt) =
     (\<forall>s. I s \<longrightarrow> I (upd s) \<and> R s (upd s) \<and> steady I R Q (nxt s))"

lemma steady_await [steady_intros]:
  assumes "steady I R Q p" and "\<And>x. Q x \<Longrightarrow> steady I R Q' (k x)"
  shows "steady I R Q' (await p k)"
  using assms by (induction p) auto

lemma steady_await_ok [steady_intros]:
  assumes "steady I R (\<lambda>r. case r of Inl e \<Rightarrow> Q' (Inl e) | Inr x \<Rightarrow> P x) p"
    and "\<And>x. P x \<Longrightarrow> steady I R Q' (k x)"
  shows "steady I R Q' (await_ok p k)"
  unfolding await_ok_def using assms
  by (intro steady_await [OF assms(1)]) (auto split: sum.splits)

lemma steady_piece:
  "(\<And>s. I s \<Longrightarrow> I (snd (c s)) \<and> R s (snd (c s)) \<and> Q (fst (c s))) \<Longrightarrow> steady I R Q (one_piece w c)"
  by (simp add: one_piece_def)

lemma steady_holding [simp]: "steady I R Q (holding a p) = steady I R Q p"
  by (induction p) auto

lemma steady_mono:
  "steady I R Q p \<Longrightarrow> (\<And>x. Q x \<Longrightarrow> Q' x) \<Longrightarrow> steady I R Q' p"
  by (induction p) auto

text \<open>The results a future can come to, whatever the other tasks do.\<close>

definition yields :: "('a \<Rightarrow> bool) \<Rightarrow> ('s, 'a) future \<Rightarrow> bool" where
  "yields Q p = steady (\<lambda>_. True) (\<lambda>_ _. True) Q p"

lemma yields_simps [simp]:
  "yields Q (Ready x) = Q x"
  "yields Q (Await w h upd nxt) = (\<forall>s. yields Q (nxt s))"
  by (simp_all add: yields_def)

lemma yields_await: "(\<And>x. yields Q (k x)) \<Longrightarrow> yields Q (await p k)"
  by (induction p) simp_all

lemma yields_await_ok:
  "(\<And>e. Q (Inl e)) \<Longrightarrow> (\<And>x. yields Q (k x)) \<Longrightarrow> yields Q (await_ok p k)"
  unfolding await_ok_def by (rule yields_await) (simp split: sum.splits)

lemma yields_await_ok_dest:
  assumes "yields P p" and "\<And>e. P (Inl e) \<Longrightarrow> Q (Inl e)" and "\<And>x. P (Inr x) \<Longrightarrow> yields Q (k x)"
  shows "yields Q (await_ok p k)"
  using assms(1) unfolding await_ok_def
  by (induction p) (auto simp: assms(2,3) split: sum.splits)

lemma yields_holding [simp]: "yields Q (holding a p) = yields Q p"
  by (simp add: yields_def)

lemma yields_under:
  "(\<And>e. Q (Inl e)) \<Longrightarrow> (\<And>x. yields Q (k x)) \<Longrightarrow> yields Q (under a c k)"
  unfolding under_def by (rule yields_await_ok) simp_all

lemma yields_run: "yields Q p \<Longrightarrow> Q (fst (run p s))"
  by (induction p arbitrary: s) (simp_all add: returns_def)

section \<open>What a future comes to among others\<close>

text \<open>
  \<open>ensures R Q p s\<close>: from the state \<open>s\<close> on, as long as the other tasks change the state by \<open>R\<close>
  only, so does every piece of \<open>p\<close>, and \<open>Q\<close> holds of its result and of every state from then
  on.
\<close>

primrec ensures ::
  "('s \<Rightarrow> 's \<Rightarrow> bool) \<Rightarrow> ('a \<Rightarrow> 's \<Rightarrow> bool) \<Rightarrow> ('s, 'a) future \<Rightarrow> 's \<Rightarrow> bool" where
  "ensures R Q (Ready x) = (\<lambda>s. \<forall>s'. R s s' \<longrightarrow> Q x s')"
| "ensures R Q (Await w h upd nxt) =
     (\<lambda>s. \<forall>s'. R s s' \<longrightarrow> R s' (upd s') \<and> ensures R Q (nxt s') (upd s'))"

lemma ensures_stable:
  assumes "ensures R Q p s" and "R s s'" and "transp R"
  shows "ensures R Q p s'"
  using assms by (cases p) (auto dest: transpD)

lemma ensures_now:
  assumes "reflp R"
  shows "ensures R Q (Ready x) s \<Longrightarrow> Q x s"
    and "ensures R Q (Await w h upd nxt) s \<Longrightarrow> R s (upd s) \<and> ensures R Q (nxt s) (upd s)"
  using reflpD [OF assms, of s] by simp_all

lemma ensures_await:
  "reflp R \<Longrightarrow> ensures R (\<lambda>x. ensures R Q (k x)) p s \<Longrightarrow> ensures R Q (await p k) s"
  by (induction p arbitrary: s) (auto dest: reflpD)

lemma ensures_await_ok:
  assumes "reflp R"
    and "ensures R (\<lambda>r s. case r of Inl e \<Rightarrow> \<forall>s'. R s s' \<longrightarrow> Q (Inl e) s' | Inr x \<Rightarrow> ensures R Q (k x) s) p s"
  shows "ensures R Q (await_ok p k) s"
  unfolding await_ok_def
proof (rule ensures_await [OF assms(1)])
  have "(case r of Inl e \<Rightarrow> \<forall>s'. R s s' \<longrightarrow> Q (Inl e) s' | Inr x \<Rightarrow> ensures R Q (k x) s) =
      ensures R Q (case r of Inl e \<Rightarrow> Ready (Inl e) | Inr x \<Rightarrow> k x) s" for r s
    by (simp split: sum.splits)
  with assms(2) show "ensures R (\<lambda>r. ensures R Q (case r of Inl e \<Rightarrow> Ready (Inl e) | Inr x \<Rightarrow> k x)) p s"
    by simp
qed

lemma ensures_holding [simp]: "ensures R Q (holding a p) s = ensures R Q p s"
  by (induction p arbitrary: s) auto

lemma ensures_piece:
  assumes "\<And>s'. R s s' \<Longrightarrow> R s' (snd (c s'))"
    and "\<And>s' s''. R s s' \<Longrightarrow> R (snd (c s')) s'' \<Longrightarrow> Q (fst (c s')) s''"
  shows "ensures R Q (one_piece w c) s"
  using assms by (simp add: one_piece_def)

text \<open>A future that keeps an invariant of \<open>R\<close> and changes the state by \<open>R\<close> only.\<close>

lemma ensures_steady:
  assumes "steady I G P p" and "I s"
    and keep: "\<And>s s'. I s \<Longrightarrow> R s s' \<Longrightarrow> I s'" and change: "\<And>s s'. I s \<Longrightarrow> I s' \<Longrightarrow> G s s' \<Longrightarrow> R s s'"
  shows "ensures R (\<lambda>x s. I s \<and> P x) p s"
  using assms(1,2)
proof (induction p arbitrary: s)
  case (Await w h upd nxt)
  have "R s' (upd s') \<and> ensures R (\<lambda>x s. I s \<and> P x) (nxt s') (upd s')" if "R s s'" for s'
  proof -
    have "I s'" using keep Await.prems(2) that by blast
    then have "I (upd s')" "G s' (upd s')" "steady I G P (nxt s')" using Await.prems(1) by simp_all
    with \<open>I s'\<close> show ?thesis using change by (auto intro: Await.IH)
  qed
  then show ?case by simp
qed (auto intro: keep)

lemma ensures_mono: "ensures R Q p s \<Longrightarrow> (\<And>x s. Q x s \<Longrightarrow> Q' x s) \<Longrightarrow> ensures R Q' p s"
  by (induction p arbitrary: s) auto

section \<open>What a piece changes under which lock\<close>

text \<open>Each piece relates the states around it by \<open>R\<close>, given the lock it takes.\<close>

primrec guarded :: "(access option \<Rightarrow> 's \<Rightarrow> 's \<Rightarrow> bool) \<Rightarrow> ('s, 'a) future \<Rightarrow> bool" where
  "guarded R (Ready x) = True"
| "guarded R (Await w h upd nxt) = (\<forall>s. R w s (upd s) \<and> guarded R (nxt s))"

named_theorems guarded_intros "futures whose pieces change what their locks allow"

lemma guarded_ready [guarded_intros]: "guarded R (Ready x)"
  by simp

lemma guarded_piece [guarded_intros]: "(\<And>s. R w s (snd (c s))) \<Longrightarrow> guarded R (one_piece w c)"
  by (simp add: one_piece_def)

lemma guarded_holding [simp]: "guarded R (holding a p) = guarded R p"
  by (induction p) auto

lemma guarded_await [guarded_intros]: "guarded R p \<Longrightarrow> (\<And>x. guarded R (k x)) \<Longrightarrow> guarded R (await p k)"
  by (induction p) simp_all

lemma guarded_await_ok [guarded_intros]:
  "guarded R p \<Longrightarrow> (\<And>x. guarded R (k x)) \<Longrightarrow> guarded R (await_ok p k)"
  unfolding await_ok_def by (rule guarded_await) (simp_all split: sum.splits)

lemma guarded_under [guarded_intros]:
  "(\<And>s. R (Some a) s (snd (c s))) \<Longrightarrow> (\<And>x. guarded R (k x)) \<Longrightarrow> guarded R (under a c k)"
  unfolding under_def by (intro guarded_await_ok guarded_piece) simp_all

lemma guarded_branches [guarded_intros]:
  "(b \<Longrightarrow> guarded R p) \<Longrightarrow> (\<not> b \<Longrightarrow> guarded R q) \<Longrightarrow> guarded R (if b then p else q)"
  "(\<And>x y. guarded R (k' x y)) \<Longrightarrow> guarded R (case z of (x, y) \<Rightarrow> k' x y)"
  "guarded R (k v) \<Longrightarrow> guarded R (let y = v in k y)"
  by (simp_all split: prod.splits)

section \<open>One lock at a time\<close>

text \<open>
  A future is orderly when it waits for a lock only while it holds none, and keeps what it
  holds and has just taken over a piece or releases it.
\<close>

definition held_after :: "access option \<Rightarrow> access list \<Rightarrow> access list" where
  "held_after want held = (case want of None \<Rightarrow> held | Some a \<Rightarrow> a # held)"

lemma held_after_simps [simp]: "held_after None held = held" "held_after (Some a) held = a # held"
  by (simp_all add: held_after_def)

primrec orderly :: "('s, 'a) future \<Rightarrow> bool" where
  "orderly (Ready x) = True"
| "orderly (Await w h upd nxt) =
     ((w = None \<or> h = []) \<and>
      (\<forall>s. (holds (nxt s) = [] \<or> holds (nxt s) = held_after w h) \<and> orderly (nxt s)))"

text \<open>Such a future, at a point where it holds nothing.\<close>

definition tidy :: "('s, 'a) future \<Rightarrow> bool" where
  "tidy p \<longleftrightarrow> holds p = [] \<and> orderly p"

text \<open>One that takes no lock at all.\<close>

primrec lockless :: "('s, 'a) future \<Rightarrow> bool" where
  "lockless (Ready x) = True"
| "lockless (Await w h upd nxt) = (w = None \<and> h = [] \<and> (\<forall>s. lockless (nxt s)))"

lemma lockless_await:
  "lockless p \<Longrightarrow> (\<And>x. lockless (k x)) \<Longrightarrow> lockless (await p k)"
  by (induction p) simp_all

lemma lockless_await_ok:
  "lockless p \<Longrightarrow> (\<And>x. lockless (k x)) \<Longrightarrow> lockless (await_ok p k)"
  by (simp add: await_ok_def lockless_await split: sum.splits)

lemma lockless_piece [simp]: "lockless (one_piece w c) \<longleftrightarrow> w = None"
  by (simp add: one_piece_def)

lemma lockless_tidy: "lockless p \<Longrightarrow> tidy p"
proof (induction p)
  case (Await w h upd nxt)
  then have "tidy (nxt s)" for s by simp
  with Await.prems show ?case by (simp add: tidy_def)
qed (simp add: tidy_def)

lemma tidy_ready [tidy_intros]: "tidy (Ready x)"
  by (simp add: tidy_def)

lemma tidy_piece [tidy_intros]: "tidy (one_piece w c)"
  by (simp add: tidy_def one_piece_def)

lemma orderly_await:
  assumes "orderly p" and "\<And>x. tidy (k x)"
  shows "orderly (await p k) \<and> holds (await p k) = holds p"
  using assms(1)
proof (induction p)
  case (Ready x)
  then show ?case using assms(2) by (simp add: tidy_def)
next
  case (Await w h upd nxt)
  then have "orderly (await (nxt s) k) \<and> holds (await (nxt s) k) = holds (nxt s)" for s by simp
  with Await.prems show ?case by simp
qed

lemma tidy_await [tidy_intros]: "tidy p \<Longrightarrow> (\<And>x. tidy (k x)) \<Longrightarrow> tidy (await p k)"
  using orderly_await [of p k] by (simp add: tidy_def)

lemma tidy_await_ok [tidy_intros]: "tidy p \<Longrightarrow> (\<And>x. tidy (k x)) \<Longrightarrow> tidy (await_ok p k)"
  unfolding await_ok_def by (rule tidy_await) (simp_all add: tidy_ready split: sum.splits)

lemma orderly_holding:
  "lockless p \<Longrightarrow> orderly (holding a p) \<and> (holds (holding a p) = [] \<or> holds (holding a p) = [a])"
proof (induction p)
  case (Await w h upd nxt)
  then have "orderly (holding a (nxt s)) \<and> (holds (holding a (nxt s)) = [] \<or> holds (holding a (nxt s)) = [a])" for s by simp
  with Await.prems show ?case by simp
qed simp

lemma tidy_under [tidy_intros]:
  assumes "\<And>x. lockless (k x)"
  shows "tidy (under a c k)"
proof -
  have "orderly (holding a (k x)) \<and> (holds (holding a (k x)) = [] \<or> holds (holding a (k x)) = [a])" for x
    by (rule orderly_holding [OF assms])
  then show ?thesis
    by (simp add: under_def tidy_def one_piece_def await_ok_def split: sum.splits)
qed

lemma tidy_branches [tidy_intros]:
  "(b \<Longrightarrow> tidy p) \<Longrightarrow> (\<not> b \<Longrightarrow> tidy q) \<Longrightarrow> tidy (if b then p else q)"
  "(\<And>x y. tidy (k' x y)) \<Longrightarrow> tidy (case z of (x, y) \<Rightarrow> k' x y)"
  "tidy (k v) \<Longrightarrow> tidy (let y = v in k y)"
  by (simp_all split: prod.splits)

end
