(* ===== verification/Server.thy ===== *)
theory Server
  imports FCall Errors Future
begin

text \<open>
  The request dispatcher of \<^verbatim>\<open>crates/rs9p/src/srv.rs\<close>: the trait \<^verbatim>\<open>Filesystem\<close> as a
  record of its methods with their default bodies, the fid table, and \<^verbatim>\<open>dispatch_once\<close>,
  which looks the fids of a request up, runs the method of the filesystem and updates the
  table. A filesystem is a parameter: its own state is of type \<open>'s\<close>, and the associated
  type \<^verbatim>\<open>Filesystem::FId\<close> is \<open>'aux\<close>, a handle to the data the filesystem keeps for a
  fid (the source shares it by reference and mutates it behind locks, so it lives in
  \<open>'s\<close>). A call of a method gives a \<open>'fut\<close>: a future where tasks interleave, a plain
  computation where a request is looked at alone.
\<close>

section \<open>Fids and the filesystem trait\<close>

record 'aux FId =
  fid_num :: u32
  fid_aux :: 'aux

record ('aux, 's, 'fut) Filesystem =
  fs_default :: "'s \<Rightarrow> 'aux \<times> 's" \<comment> \<open>\<^verbatim>\<open>Default::default()\<close> of \<^verbatim>\<open>Filesystem::FId\<close>\<close>
  rstatfs :: "'aux FId \<Rightarrow> 'fut"
  rlopen :: "'aux FId \<Rightarrow> u32 \<Rightarrow> 'fut"
  rlcreate :: "'aux FId \<Rightarrow> rstring \<Rightarrow> u32 \<Rightarrow> u32 \<Rightarrow> u32 \<Rightarrow> 'fut"
  rsymlink :: "'aux FId \<Rightarrow> rstring \<Rightarrow> rstring \<Rightarrow> u32 \<Rightarrow> 'fut"
  rmknod :: "'aux FId \<Rightarrow> rstring \<Rightarrow> u32 \<Rightarrow> u32 \<Rightarrow> u32 \<Rightarrow> u32 \<Rightarrow> 'fut"
  rrename :: "'aux FId \<Rightarrow> 'aux FId \<Rightarrow> rstring \<Rightarrow> 'fut"
  rreadlink :: "'aux FId \<Rightarrow> 'fut"
  rgetattr :: "'aux FId \<Rightarrow> u64 \<Rightarrow> 'fut"
  rsetattr :: "'aux FId \<Rightarrow> u32 \<Rightarrow> SetAttr \<Rightarrow> 'fut"
  rxattrwalk :: "'aux FId \<Rightarrow> 'aux FId \<Rightarrow> rstring \<Rightarrow> 'fut"
  rxattrcreate :: "'aux FId \<Rightarrow> rstring \<Rightarrow> u64 \<Rightarrow> u32 \<Rightarrow> 'fut"
  rreaddir :: "'aux FId \<Rightarrow> u64 \<Rightarrow> u32 \<Rightarrow> 'fut"
  rfsync :: "'aux FId \<Rightarrow> 'fut"
  rlock :: "'aux FId \<Rightarrow> Flock \<Rightarrow> 'fut"
  rgetlock :: "'aux FId \<Rightarrow> Getlock \<Rightarrow> 'fut"
  rlink :: "'aux FId \<Rightarrow> 'aux FId \<Rightarrow> rstring \<Rightarrow> 'fut"
  rmkdir :: "'aux FId \<Rightarrow> rstring \<Rightarrow> u32 \<Rightarrow> u32 \<Rightarrow> 'fut"
  rrenameat :: "'aux FId \<Rightarrow> rstring \<Rightarrow> 'aux FId \<Rightarrow> rstring \<Rightarrow> 'fut"
  runlinkat :: "'aux FId \<Rightarrow> rstring \<Rightarrow> u32 \<Rightarrow> 'fut"
  rauth :: "'aux FId \<Rightarrow> rstring \<Rightarrow> rstring \<Rightarrow> u32 \<Rightarrow> 'fut"
  rattach :: "'aux FId \<Rightarrow> 'aux FId option \<Rightarrow> rstring \<Rightarrow> rstring \<Rightarrow> u32 \<Rightarrow> 'fut"
  rflush :: "fcall option \<Rightarrow> 'fut"
  rwalk :: "'aux FId \<Rightarrow> 'aux FId \<Rightarrow> rstring list \<Rightarrow> 'fut"
  rread :: "'aux FId \<Rightarrow> u64 \<Rightarrow> u32 \<Rightarrow> 'fut"
  rwrite :: "'aux FId \<Rightarrow> u64 \<Rightarrow> Data \<Rightarrow> 'fut"
  rclunk :: "'aux FId \<Rightarrow> 'fut"
  rremove :: "'aux FId \<Rightarrow> 'fut"
  rversion :: "u32 \<Rightarrow> rstring \<Rightarrow> 'fut"

type_synonym ('aux, 's) sequential_fs = "('aux, 's, ('s, error, fcall) comp) Filesystem"
type_synonym ('aux, 's) concurrent_fs = "('aux, 's, ('s, error + fcall) future) Filesystem"

text \<open>The default bodies of the trait; \<open>ret\<close> makes the future that is ready at once.\<close>

definition unsupported :: "(error + fcall \<Rightarrow> 'fut) \<Rightarrow> 'fut" where
  "unsupported ret = ret (Inl (No EOPNOTSUPP))"

definition default_rversion :: "(error + fcall \<Rightarrow> 'fut) \<Rightarrow> u32 \<Rightarrow> rstring \<Rightarrow> 'fut" where
  "default_rversion ret msize ver =
     ret (Inr (RVersion msize (if ver = P92000L then ver else VERSION_UNKNOWN)))"

definition default_rstatfs :: "(error + fcall \<Rightarrow> 'fut) \<Rightarrow> 'aux FId \<Rightarrow> 'fut" where
  "default_rstatfs ret = (\<lambda>_. unsupported ret)"

definition default_rlopen :: "(error + fcall \<Rightarrow> 'fut) \<Rightarrow> 'aux FId \<Rightarrow> u32 \<Rightarrow> 'fut" where
  "default_rlopen ret = (\<lambda>_ _. unsupported ret)"

definition default_rlcreate :: "(error + fcall \<Rightarrow> 'fut) \<Rightarrow> 'aux FId \<Rightarrow> rstring \<Rightarrow> u32 \<Rightarrow> u32 \<Rightarrow> u32 \<Rightarrow> 'fut" where
  "default_rlcreate ret = (\<lambda>_ _ _ _ _. unsupported ret)"

definition default_rsymlink :: "(error + fcall \<Rightarrow> 'fut) \<Rightarrow> 'aux FId \<Rightarrow> rstring \<Rightarrow> rstring \<Rightarrow> u32 \<Rightarrow> 'fut" where
  "default_rsymlink ret = (\<lambda>_ _ _ _. unsupported ret)"

definition default_rmknod :: "(error + fcall \<Rightarrow> 'fut) \<Rightarrow> 'aux FId \<Rightarrow> rstring \<Rightarrow> u32 \<Rightarrow> u32 \<Rightarrow> u32 \<Rightarrow> u32 \<Rightarrow> 'fut" where
  "default_rmknod ret = (\<lambda>_ _ _ _ _ _. unsupported ret)"

definition default_rrename :: "(error + fcall \<Rightarrow> 'fut) \<Rightarrow> 'aux FId \<Rightarrow> 'aux FId \<Rightarrow> rstring \<Rightarrow> 'fut" where
  "default_rrename ret = (\<lambda>_ _ _. unsupported ret)"

definition default_rreadlink :: "(error + fcall \<Rightarrow> 'fut) \<Rightarrow> 'aux FId \<Rightarrow> 'fut" where
  "default_rreadlink ret = (\<lambda>_. unsupported ret)"

definition default_rgetattr :: "(error + fcall \<Rightarrow> 'fut) \<Rightarrow> 'aux FId \<Rightarrow> u64 \<Rightarrow> 'fut" where
  "default_rgetattr ret = (\<lambda>_ _. unsupported ret)"

definition default_rsetattr :: "(error + fcall \<Rightarrow> 'fut) \<Rightarrow> 'aux FId \<Rightarrow> u32 \<Rightarrow> SetAttr \<Rightarrow> 'fut" where
  "default_rsetattr ret = (\<lambda>_ _ _. unsupported ret)"

definition default_rxattrwalk :: "(error + fcall \<Rightarrow> 'fut) \<Rightarrow> 'aux FId \<Rightarrow> 'aux FId \<Rightarrow> rstring \<Rightarrow> 'fut" where
  "default_rxattrwalk ret = (\<lambda>_ _ _. unsupported ret)"

definition default_rxattrcreate :: "(error + fcall \<Rightarrow> 'fut) \<Rightarrow> 'aux FId \<Rightarrow> rstring \<Rightarrow> u64 \<Rightarrow> u32 \<Rightarrow> 'fut" where
  "default_rxattrcreate ret = (\<lambda>_ _ _ _. unsupported ret)"

definition default_rreaddir :: "(error + fcall \<Rightarrow> 'fut) \<Rightarrow> 'aux FId \<Rightarrow> u64 \<Rightarrow> u32 \<Rightarrow> 'fut" where
  "default_rreaddir ret = (\<lambda>_ _ _. unsupported ret)"

definition default_rfsync :: "(error + fcall \<Rightarrow> 'fut) \<Rightarrow> 'aux FId \<Rightarrow> 'fut" where
  "default_rfsync ret = (\<lambda>_. unsupported ret)"

definition default_rlock :: "(error + fcall \<Rightarrow> 'fut) \<Rightarrow> 'aux FId \<Rightarrow> Flock \<Rightarrow> 'fut" where
  "default_rlock ret = (\<lambda>_ _. unsupported ret)"

definition default_rgetlock :: "(error + fcall \<Rightarrow> 'fut) \<Rightarrow> 'aux FId \<Rightarrow> Getlock \<Rightarrow> 'fut" where
  "default_rgetlock ret = (\<lambda>_ _. unsupported ret)"

definition default_rlink :: "(error + fcall \<Rightarrow> 'fut) \<Rightarrow> 'aux FId \<Rightarrow> 'aux FId \<Rightarrow> rstring \<Rightarrow> 'fut" where
  "default_rlink ret = (\<lambda>_ _ _. unsupported ret)"

definition default_rmkdir :: "(error + fcall \<Rightarrow> 'fut) \<Rightarrow> 'aux FId \<Rightarrow> rstring \<Rightarrow> u32 \<Rightarrow> u32 \<Rightarrow> 'fut" where
  "default_rmkdir ret = (\<lambda>_ _ _ _. unsupported ret)"

definition default_rrenameat :: "(error + fcall \<Rightarrow> 'fut) \<Rightarrow> 'aux FId \<Rightarrow> rstring \<Rightarrow> 'aux FId \<Rightarrow> rstring \<Rightarrow> 'fut" where
  "default_rrenameat ret = (\<lambda>_ _ _ _. unsupported ret)"

definition default_runlinkat :: "(error + fcall \<Rightarrow> 'fut) \<Rightarrow> 'aux FId \<Rightarrow> rstring \<Rightarrow> u32 \<Rightarrow> 'fut" where
  "default_runlinkat ret = (\<lambda>_ _ _. unsupported ret)"

definition default_rauth :: "(error + fcall \<Rightarrow> 'fut) \<Rightarrow> 'aux FId \<Rightarrow> rstring \<Rightarrow> rstring \<Rightarrow> u32 \<Rightarrow> 'fut" where
  "default_rauth ret = (\<lambda>_ _ _ _. unsupported ret)"

definition default_rattach :: "(error + fcall \<Rightarrow> 'fut) \<Rightarrow> 'aux FId \<Rightarrow> 'aux FId option \<Rightarrow> rstring \<Rightarrow> rstring \<Rightarrow> u32 \<Rightarrow> 'fut" where
  "default_rattach ret = (\<lambda>_ _ _ _ _. unsupported ret)"

definition default_rflush :: "(error + fcall \<Rightarrow> 'fut) \<Rightarrow> fcall option \<Rightarrow> 'fut" where
  "default_rflush ret = (\<lambda>_. unsupported ret)"

definition default_rwalk :: "(error + fcall \<Rightarrow> 'fut) \<Rightarrow> 'aux FId \<Rightarrow> 'aux FId \<Rightarrow> rstring list \<Rightarrow> 'fut" where
  "default_rwalk ret = (\<lambda>_ _ _. unsupported ret)"

definition default_rread :: "(error + fcall \<Rightarrow> 'fut) \<Rightarrow> 'aux FId \<Rightarrow> u64 \<Rightarrow> u32 \<Rightarrow> 'fut" where
  "default_rread ret = (\<lambda>_ _ _. unsupported ret)"

definition default_rwrite :: "(error + fcall \<Rightarrow> 'fut) \<Rightarrow> 'aux FId \<Rightarrow> u64 \<Rightarrow> Data \<Rightarrow> 'fut" where
  "default_rwrite ret = (\<lambda>_ _ _. unsupported ret)"

definition default_rclunk :: "(error + fcall \<Rightarrow> 'fut) \<Rightarrow> 'aux FId \<Rightarrow> 'fut" where
  "default_rclunk ret = (\<lambda>_. unsupported ret)"

definition default_rremove :: "(error + fcall \<Rightarrow> 'fut) \<Rightarrow> 'aux FId \<Rightarrow> 'fut" where
  "default_rremove ret = (\<lambda>_. unsupported ret)"

definition default_filesystem ::
  "(error + fcall \<Rightarrow> 'fut) \<Rightarrow> ('s \<Rightarrow> 'aux \<times> 's) \<Rightarrow> ('aux, 's, 'fut) Filesystem" where
  "default_filesystem ret dflt =
     \<lparr>fs_default = dflt,
      rstatfs = default_rstatfs ret,
      rlopen = default_rlopen ret,
      rlcreate = default_rlcreate ret,
      rsymlink = default_rsymlink ret,
      rmknod = default_rmknod ret,
      rrename = default_rrename ret,
      rreadlink = default_rreadlink ret,
      rgetattr = default_rgetattr ret,
      rsetattr = default_rsetattr ret,
      rxattrwalk = default_rxattrwalk ret,
      rxattrcreate = default_rxattrcreate ret,
      rreaddir = default_rreaddir ret,
      rfsync = default_rfsync ret,
      rlock = default_rlock ret,
      rgetlock = default_rgetlock ret,
      rlink = default_rlink ret,
      rmkdir = default_rmkdir ret,
      rrenameat = default_rrenameat ret,
      runlinkat = default_runlinkat ret,
      rauth = default_rauth ret,
      rattach = default_rattach ret,
      rflush = default_rflush ret,
      rwalk = default_rwalk ret,
      rread = default_rread ret,
      rwrite = default_rwrite ret,
      rclunk = default_rclunk ret,
      rremove = default_rremove ret,
      rversion = default_rversion ret\<rparr>"

text \<open>All of them answer \<^verbatim>\<open>EOPNOTSUPP\<close> at once.\<close>

lemmas default_methods =
  default_rstatfs_def default_rlopen_def default_rlcreate_def default_rsymlink_def
  default_rmknod_def default_rrename_def default_rreadlink_def default_rgetattr_def
  default_rsetattr_def default_rxattrwalk_def default_rxattrcreate_def default_rreaddir_def
  default_rfsync_def default_rlock_def default_rgetlock_def default_rlink_def
  default_rmkdir_def default_rrenameat_def default_runlinkat_def default_rauth_def
  default_rattach_def default_rflush_def default_rwalk_def default_rread_def
  default_rwrite_def default_rclunk_def default_rremove_def

declare default_methods [simp]

text \<open>Every call of a filesystem passed through a function.\<close>

definition map_filesystem ::
  "('f \<Rightarrow> 'g) \<Rightarrow> ('aux, 's, 'f) Filesystem \<Rightarrow> ('aux, 's, 'g) Filesystem" where
  "map_filesystem h fs =
     \<lparr>fs_default = fs_default fs,
      rstatfs = (\<lambda>a. h (rstatfs fs a)),
      rlopen = (\<lambda>a b. h (rlopen fs a b)),
      rlcreate = (\<lambda>a b c d e. h (rlcreate fs a b c d e)),
      rsymlink = (\<lambda>a b c d. h (rsymlink fs a b c d)),
      rmknod = (\<lambda>a b c d e f. h (rmknod fs a b c d e f)),
      rrename = (\<lambda>a b c. h (rrename fs a b c)),
      rreadlink = (\<lambda>a. h (rreadlink fs a)),
      rgetattr = (\<lambda>a b. h (rgetattr fs a b)),
      rsetattr = (\<lambda>a b c. h (rsetattr fs a b c)),
      rxattrwalk = (\<lambda>a b c. h (rxattrwalk fs a b c)),
      rxattrcreate = (\<lambda>a b c d. h (rxattrcreate fs a b c d)),
      rreaddir = (\<lambda>a b c. h (rreaddir fs a b c)),
      rfsync = (\<lambda>a. h (rfsync fs a)),
      rlock = (\<lambda>a b. h (rlock fs a b)),
      rgetlock = (\<lambda>a b. h (rgetlock fs a b)),
      rlink = (\<lambda>a b c. h (rlink fs a b c)),
      rmkdir = (\<lambda>a b c d. h (rmkdir fs a b c d)),
      rrenameat = (\<lambda>a b c d. h (rrenameat fs a b c d)),
      runlinkat = (\<lambda>a b c. h (runlinkat fs a b c)),
      rauth = (\<lambda>a b c d. h (rauth fs a b c d)),
      rattach = (\<lambda>a b c d e. h (rattach fs a b c d e)),
      rflush = (\<lambda>a. h (rflush fs a)),
      rwalk = (\<lambda>a b c. h (rwalk fs a b c)),
      rread = (\<lambda>a b c. h (rread fs a b c)),
      rwrite = (\<lambda>a b c. h (rwrite fs a b c)),
      rclunk = (\<lambda>a. h (rclunk fs a)),
      rremove = (\<lambda>a. h (rremove fs a)),
      rversion = (\<lambda>a b. h (rversion fs a b))\<rparr>"

lemma map_default_filesystem:
  "map_filesystem h (default_filesystem ret dflt) = default_filesystem (h \<circ> ret) dflt"
  by (simp add: map_filesystem_def default_filesystem_def unsupported_def default_rversion_def fun_eq_iff)

section \<open>Routing a request\<close>

text \<open>The operator \<^verbatim>\<open>?\<close> on a plain result.\<close>

definition or_return :: "'e + 'a \<Rightarrow> ('a \<Rightarrow> 'e + 'b) \<Rightarrow> 'e + 'b" where
  "or_return r k = (case r of Inl e \<Rightarrow> Inl e | Inr x \<Rightarrow> k x)"

lemma or_return_simps [simp]: "or_return (Inl e) k = Inl e" "or_return (Inr x) k = k x"
  by (simp_all add: or_return_def)

type_synonym 'aux fid_table = "u32 \<rightharpoonup> 'aux FId"

definition get_fid :: "'aux fid_table \<Rightarrow> u32 \<Rightarrow> error + 'aux FId" where
  "get_fid fids fid = (case fids fid of None \<Rightarrow> Inl (No EBADF) | Some f \<Rightarrow> Inr f)"

definition get_newfid :: "'aux FId option \<Rightarrow> error + 'aux FId" where
  "get_newfid newfid = (case newfid of None \<Rightarrow> Inl (No EPROTO) | Some f \<Rightarrow> Inr f)"

text \<open>
  The match of \<^verbatim>\<open>dispatch_once\<close>: the call of the method (the future), or an early return.
\<close>

definition route ::
  "('aux, 's, 'fut) Filesystem \<Rightarrow> 'aux fid_table \<Rightarrow> 'aux FId option \<Rightarrow> fcall \<Rightarrow> error + 'fut" where
  "route fs fids newfid body =
     (case body of
        TStatFs fid \<Rightarrow> or_return (get_fid fids fid) (\<lambda>f. Inr (rstatfs fs f))
      | TlOpen fid flags \<Rightarrow>
          or_return (get_fid fids fid) (\<lambda>f. Inr (rlopen fs f flags))
      | TlCreate fid name flags mode gid \<Rightarrow>
          or_return (get_fid fids fid) (\<lambda>f. Inr (rlcreate fs f name flags mode gid))
      | TSymlink fid name symtgt gid \<Rightarrow>
          or_return (get_fid fids fid) (\<lambda>f. Inr (rsymlink fs f name symtgt gid))
      | TMkNod dfid name mode major minor gid \<Rightarrow>
          or_return (get_fid fids dfid) (\<lambda>f. Inr (rmknod fs f name mode major minor gid))
      | TRename fid dfid name \<Rightarrow>
          or_return (get_fid fids fid) (\<lambda>f. or_return (get_fid fids dfid) (\<lambda>g. Inr (rrename fs f g name)))
      | TReadLink fid \<Rightarrow>
          or_return (get_fid fids fid) (\<lambda>f. Inr (rreadlink fs f))
      | TGetAttr fid req_mask \<Rightarrow>
          or_return (get_fid fids fid) (\<lambda>f. Inr (rgetattr fs f req_mask))
      | TSetAttr fid valid stat \<Rightarrow>
          or_return (get_fid fids fid) (\<lambda>f. Inr (rsetattr fs f valid stat))
      | TxAttrWalk fid _ name \<Rightarrow>
          or_return (get_fid fids fid) (\<lambda>f. or_return (get_newfid newfid) (\<lambda>nf. Inr (rxattrwalk fs f nf name)))
      | TxAttrCreate fid name attr_size flags \<Rightarrow>
          or_return (get_fid fids fid) (\<lambda>f. Inr (rxattrcreate fs f name attr_size flags))
      | TReadDir fid offset count \<Rightarrow>
          or_return (get_fid fids fid) (\<lambda>f. Inr (rreaddir fs f offset count))
      | TFSync fid \<Rightarrow> or_return (get_fid fids fid) (\<lambda>f. Inr (rfsync fs f))
      | TLock fid flock \<Rightarrow>
          or_return (get_fid fids fid) (\<lambda>f. Inr (rlock fs f flock))
      | TGetLock fid flock \<Rightarrow>
          or_return (get_fid fids fid) (\<lambda>f. Inr (rgetlock fs f flock))
      | TLink dfid fid name \<Rightarrow>
          or_return (get_fid fids dfid) (\<lambda>f. or_return (get_fid fids fid) (\<lambda>g. Inr (rlink fs f g name)))
      | TMkDir dfid name mode gid \<Rightarrow>
          or_return (get_fid fids dfid) (\<lambda>f. Inr (rmkdir fs f name mode gid))
      | TRenameAt olddirfid oldname newdirfid newname \<Rightarrow>
          or_return (get_fid fids olddirfid) (\<lambda>f. or_return (get_fid fids newdirfid) (\<lambda>g. Inr (rrenameat fs f oldname g newname)))
      | TUnlinkAt dirfd name flags \<Rightarrow>
          or_return (get_fid fids dirfd) (\<lambda>f. Inr (runlinkat fs f name flags))
      | TAuth _ uname aname n_uname \<Rightarrow>
          or_return (get_newfid newfid) (\<lambda>nf. Inr (rauth fs nf uname aname n_uname))
      | TAttach _ _ uname aname n_uname \<Rightarrow>
          or_return (get_newfid newfid) (\<lambda>nf. Inr (rattach fs nf None uname aname n_uname))
      | TVersion msize version \<Rightarrow> Inr (rversion fs msize version)
      | TFlush _ \<Rightarrow> Inr (rflush fs None)
      | TWalk fid _ wnames \<Rightarrow>
          or_return (get_fid fids fid) (\<lambda>f. or_return (get_newfid newfid) (\<lambda>nf. Inr (rwalk fs f nf wnames)))
      | TRead fid offset count \<Rightarrow>
          or_return (get_fid fids fid) (\<lambda>f. Inr (rread fs f offset count))
      | TWrite fid offset data \<Rightarrow>
          or_return (get_fid fids fid) (\<lambda>f. Inr (rwrite fs f offset data))
      | TClunk fid \<Rightarrow> or_return (get_fid fids fid) (\<lambda>f. Inr (rclunk fs f))
      | TRemove fid \<Rightarrow> or_return (get_fid fids fid) (\<lambda>f. Inr (rremove fs f))
      | _ \<Rightarrow> Inl (No EOPNOTSUPP))"

section \<open>One request\<close>

record ('aux, 's) server =
  srv_fids :: "'aux fid_table"
  srv_fs :: 's

text \<open>The \<^verbatim>\<open>FId\<close> made for the new fid of the request, before anything is looked up.\<close>

definition make_newfid ::
  "('aux, 's, 'fut) Filesystem \<Rightarrow> fcall \<Rightarrow> 's \<Rightarrow> 'aux FId option \<times> 's" where
  "make_newfid fs body s =
     (case newfid_of body of
        None \<Rightarrow> (None, s)
      | Some f \<Rightarrow> (case fs_default fs s of (aux, s') \<Rightarrow> (Some \<lparr>fid_num = f, fid_aux = aux\<rparr>, s')))"

text \<open>The part under the read lock: route, then await the future.\<close>

definition run_method ::
  "('aux, 's) sequential_fs \<Rightarrow> 'aux fid_table \<Rightarrow> 'aux FId option \<Rightarrow> fcall \<Rightarrow> ('s, error, fcall) comp" where
  "run_method fs fids newfid body =
     (case route fs fids newfid body of Inl e \<Rightarrow> fail e | Inr fut \<Rightarrow> fut)"

text \<open>The two updates under the write lock.\<close>

definition drop_clunked :: "fcall \<Rightarrow> 'aux fid_table \<Rightarrow> 'aux fid_table" where
  "drop_clunked body fids = (case body of TClunk fid \<Rightarrow> fids(fid := None) | _ \<Rightarrow> fids)"

definition insert_newfid :: "'aux FId option \<Rightarrow> 'aux fid_table \<Rightarrow> 'aux fid_table" where
  "insert_newfid newfid fids =
     (case newfid of None \<Rightarrow> fids | Some nf \<Rightarrow> fids(fid_num nf \<mapsto> nf))"

definition dispatch_once ::
  "('aux, 's) sequential_fs \<Rightarrow> Msg \<Rightarrow> (('aux, 's) server, error, fcall) comp" where
  "dispatch_once fs msg sv =
     (case make_newfid fs (msg_body msg) (srv_fs sv) of (newfid, s1) \<Rightarrow>
      (case run_method fs (srv_fids sv) newfid (msg_body msg) s1 of
         (Inl e, s2) \<Rightarrow> (Inl e, sv\<lparr>srv_fs := s2\<rparr>)
       | (Inr response, s2) \<Rightarrow>
           (Inr response,
            sv\<lparr>srv_fs := s2,
               srv_fids := insert_newfid newfid (drop_clunked (msg_body msg) (srv_fids sv))\<rparr>)))"

text \<open>The response to a request: an error becomes \<^verbatim>\<open>RlError\<close> with its errno.\<close>

definition response_of :: "nix \<Rightarrow> error + fcall \<Rightarrow> fcall" where
  "response_of N res =
     (case res of Inl e \<Rightarrow> RlError (errno_as_u32 N (error_errno N e)) | Inr response \<Rightarrow> response)"

section \<open>What routing decides\<close>

lemma get_fid_Inl: "get_fid fids f = Inl e \<longleftrightarrow> fids f = None \<and> e = No EBADF"
  by (auto simp: get_fid_def split: option.splits)

lemma get_fid_Inr: "get_fid fids f = Inr x \<longleftrightarrow> fids f = Some x"
  by (auto simp: get_fid_def split: option.splits)

lemma or_return_eq_Inl:
  "or_return r k = Inl e \<longleftrightarrow> r = Inl e \<or> (\<exists>x. r = Inr x \<and> k x = Inl e)"
  by (cases r) auto

lemma or_return_eq_Inr:
  "or_return r k = Inr y \<longleftrightarrow> (\<exists>x. r = Inr x \<and> k x = Inr y)"
  by (cases r) auto

lemma make_newfid_fid:
  "make_newfid fs body s = (newfid, s') \<Longrightarrow>
     map_option fid_num newfid = newfid_of body"
  by (auto simp: make_newfid_def split: option.splits prod.splits)

text \<open>The fids a request is looked up by: those it carries, but never the \<^verbatim>\<open>afid\<close>.\<close>

definition looked_up :: "fcall \<Rightarrow> u32 set" where
  "looked_up body = (case body of TAttach _ _ _ _ _ \<Rightarrow> {} | _ \<Rightarrow> set (fids_of body))"

lemma map_filesystem_default [simp]: "fs_default (map_filesystem h fs) = fs_default fs"
  by (simp add: map_filesystem_def)

lemma make_newfid_map [simp]: "make_newfid (map_filesystem h fs) = make_newfid fs"
  by (simp add: make_newfid_def fun_eq_iff split: option.splits)

text \<open>Routing does not look into the calls.\<close>

lemma or_return_map: "or_return r (\<lambda>x. map_sum id h (k x)) = map_sum id h (or_return r k)"
  by (cases r) simp_all

lemma route_map:
  "route (map_filesystem h fs) fids newfid body = map_sum id h (route fs fids newfid body)"
  by (cases body) (simp_all add: route_def map_filesystem_def flip: or_return_map)

section \<open>The table\<close>

lemma drop_clunked_le: "drop_clunked body fids \<subseteq>\<^sub>m fids"
  by (cases body) (auto simp: drop_clunked_def map_le_def)

lemma drop_clunked_apply:
  "drop_clunked body fids k = (if body = TClunk k then None else fids k)"
  by (cases body) (auto simp: drop_clunked_def)

lemma insert_newfid_apply:
  "insert_newfid newfid fids k =
     (case newfid of Some nf \<Rightarrow> if fid_num nf = k then Some nf else fids k | None \<Rightarrow> fids k)"
  by (auto simp: insert_newfid_def split: option.splits)

section \<open>The interface of a filesystem\<close>

text \<open>
  What the server relies on when a filesystem keeps an invariant \<open>inv\<close> of its state and
  \<open>valid\<close> handles: a default handle is valid; a handle stays valid; and a method called on
  valid handles keeps the invariant at each of its pieces, whatever other methods do
  between them, as long as they keep it too.
\<close>

definition handles :: "'aux fid_table \<Rightarrow> 'aux FId option \<Rightarrow> 'aux set" where
  "handles fids newfid = fid_aux ` (ran fids \<union> set_option newfid)"

locale filesystem_contract =
  fixes fs :: "('aux, 's) concurrent_fs"
    and inv :: "'s \<Rightarrow> bool"
    and valid :: "'aux \<Rightarrow> 's \<Rightarrow> bool"
  assumes default_keeps: "fs_default fs s = (a, s') \<Longrightarrow> inv s \<Longrightarrow> inv s'"
    and default_valid: "fs_default fs s = (a, s') \<Longrightarrow> valid a s' \<and> (valid b s \<longrightarrow> valid b s')"
    and method_steady: "route fs fids newfid body = Inr fut \<Longrightarrow>
      steady (\<lambda>s. inv s \<and> (\<forall>a \<in> handles fids newfid. valid a s))
        (\<lambda>s s'. \<forall>b. valid b s \<longrightarrow> valid b s') (\<lambda>_. True) fut"
begin

definition table_valid :: "'aux fid_table \<Rightarrow> 's \<Rightarrow> bool" where
  "table_valid fids s \<longleftrightarrow> (\<forall>f \<in> ran fids. valid (fid_aux f) s)"

lemma table_valid_mono:
  "table_valid fids s \<Longrightarrow> (\<And>b. valid b s \<Longrightarrow> valid b s') \<Longrightarrow> table_valid fids s'"
  by (auto simp: table_valid_def)

lemma table_valid_le: "fids' \<subseteq>\<^sub>m fids \<Longrightarrow> table_valid fids s \<Longrightarrow> table_valid fids' s"
  by (auto simp: table_valid_def ran_def map_le_def) (metis domI)

lemma table_valid_insert:
  "table_valid fids s \<Longrightarrow> (\<And>nf. newfid = Some nf \<Longrightarrow> valid (fid_aux nf) s) \<Longrightarrow>
     table_valid (insert_newfid newfid fids) s"
  by (auto simp: table_valid_def ran_def insert_newfid_apply split: option.splits if_splits)

lemma make_newfid_keeps:
  "make_newfid fs body s = (newfid, s') \<Longrightarrow> inv s \<Longrightarrow> inv s'"
  "make_newfid fs body s = (newfid, s') \<Longrightarrow> valid b s \<Longrightarrow> valid b s'"
  "make_newfid fs body s = (Some nf, s') \<Longrightarrow> valid (fid_aux nf) s'"
  by (auto simp: make_newfid_def dest: default_keeps default_valid split: option.splits prod.splits)

end

text \<open>
  A law every method obeys from its call on, whatever runs between its pieces. What the
  server relies on for its progress is one: a method takes one lock at a time and gives it
  back, so that a task which holds one can always go on.
\<close>

locale method_law =
  fixes fs :: "('aux, 's) concurrent_fs"
    and law :: "('s, error + fcall) future \<Rightarrow> bool"
  assumes method_start: "route fs fids newfid body = Inr fut \<Longrightarrow> law fut"
    and method_next: "law (Await w h upd nxt) \<Longrightarrow> law (nxt s)"

locale lock_discipline = method_law fs orderly for fs :: "('aux, 's) concurrent_fs" +
  assumes method_fresh: "route fs fids newfid body = Inr fut \<Longrightarrow> holds fut = []"

lemma lock_disciplineI:
  "(\<And>fids newfid body fut. route fs fids newfid body = Inr fut \<Longrightarrow> tidy fut) \<Longrightarrow> lock_discipline fs"
  by unfold_locales (auto simp: tidy_def)

lemma route_refused:
  assumes "map_option fid_num newfid = newfid_of body"
  shows "route fs fids newfid body = Inl e \<longleftrightarrow>
    (is_r (msg_type_of body) \<and> e = No EOPNOTSUPP) \<or>
    (is_t (msg_type_of body) \<and> \<not> looked_up body \<subseteq> dom fids \<and> e = No EBADF)"
  using assms
  by (cases body; cases newfid)
    (auto simp: route_def looked_up_def fids_of_def newfid_of_def is_t_def or_return_eq_Inl
      get_fid_Inl get_fid_Inr get_newfid_def)

text \<open>Why a request is refused before any method is called.\<close>

definition refusal :: "'aux fid_table \<Rightarrow> fcall \<Rightarrow> errno option" where
  "refusal fids body =
     (if is_r (msg_type_of body) then Some EOPNOTSUPP
      else if looked_up body \<subseteq> dom fids then None
      else Some EBADF)"

lemma is_t_iff: "is_t (msg_type_of body) \<longleftrightarrow> \<not> is_r (msg_type_of body)"
  by (cases body) (simp_all add: is_t_def)

lemma route_refusal:
  assumes "make_newfid fs body s = (newfid, s1)"
  shows "case refusal fids body of
      Some e \<Rightarrow> route fs fids newfid body = Inl (No e)
    | None \<Rightarrow> \<exists>fut. route fs fids newfid body = Inr fut"
proof -
  note refused = route_refused [OF make_newfid_fid [OF assms], where fs = fs and fids = fids]
  show ?thesis
  proof (cases "refusal fids body")
    case None
    then have "route fs fids newfid body \<noteq> Inl e" for e
      using refused [of e] by (simp add: refusal_def is_t_iff split: if_splits)
    with None show ?thesis by (cases "route fs fids newfid body") auto
  next
    case (Some e)
    with refused [of "No e"] show ?thesis
      by (auto simp: refusal_def is_t_iff split: if_splits)
  qed
qed

text \<open>
  C25. Which requests \<^verbatim>\<open>dispatch_once\<close> refuses. A reply sent by a client is refused as
  unsupported, a request that names a fid the table does not hold is refused with \<^verbatim>\<open>EBADF\<close>,
  and then no method of the filesystem runs and the table stays; every other request is
  answered by a method. The \<^verbatim>\<open>afid\<close> of a \<^verbatim>\<open>TAttach\<close> does not count: it is never looked up. The
  error \<^verbatim>\<open>EPROTO\<close> for a missing new fid never occurs.
\<close>

theorem routing_errors:
  assumes "make_newfid fs (msg_body msg) (srv_fs sv) = (newfid, s1)"
  shows "case refusal (srv_fids sv) (msg_body msg) of
      Some e \<Rightarrow> dispatch_once fs msg sv = (Inl (No e), sv\<lparr>srv_fs := s1\<rparr>)
    | None \<Rightarrow> \<exists>fut. route fs (srv_fids sv) newfid (msg_body msg) = Inr fut \<and>
        fst (dispatch_once fs msg sv) = fst (fut s1) \<and>
        srv_fs (snd (dispatch_once fs msg sv)) = snd (fut s1)"
  using route_refusal [OF assms, of "srv_fids sv"]
  by (auto simp: dispatch_once_def assms run_method_def fail_def split: option.splits sum.splits prod.splits)

text \<open>A filesystem with one directory, as in the crate's first example, for the witnesses.\<close>

definition root_qid :: QId where
  "root_qid = \<lparr>qid_typ = QIdType_DIR, qid_version = 0, qid_path = 0\<rparr>"

definition sample_fs :: "(error + fcall \<Rightarrow> 'fut) \<Rightarrow> (unit, unit, 'fut) Filesystem" where
  "sample_fs ret =
     (default_filesystem ret (\<lambda>s. ((), s)))
       \<lparr>rattach := (\<lambda>_ _ _ _ _. ret (Inr (RAttach root_qid))),
        rclunk := (\<lambda>_. ret (Inr RClunk)), rremove := (\<lambda>_. ret (Inr RRemove))\<rparr>"

lemma sample_fs_disciplined: "lock_discipline (sample_fs Ready)"
proof (rule lock_disciplineI)
  fix fids newfid body and fut :: "(unit, error + fcall) future"
  assume "route (sample_fs Ready) fids newfid body = Inr fut"
  then show "tidy fut"
    by (cases body) (auto simp: route_def or_return_eq_Inr sample_fs_def default_filesystem_def
        unsupported_def default_rversion_def tidy_ready)
qed

definition sample_server :: "(unit, unit) server" where
  "sample_server = \<lparr>srv_fids = [5 \<mapsto> \<lparr>fid_num = 5, fid_aux = ()\<rparr>], srv_fs = ()\<rparr>"

theorem routing_errors_witness:
  "fst (dispatch_once (sample_fs returns) \<lparr>msg_tag = 1, msg_body = TClunk 4\<rparr> sample_server) = Inl (No EBADF) \<and>
   fst (dispatch_once (sample_fs returns) \<lparr>msg_tag = 1, msg_body = RClunk\<rparr> sample_server) = Inl (No EOPNOTSUPP) \<and>
   fst (dispatch_once (sample_fs returns) \<lparr>msg_tag = 1, msg_body = TAttach 6 4 [] [] 0\<rparr> sample_server) =
     Inr (RAttach root_qid)"
  using routing_errors [of "sample_fs returns" "\<lparr>msg_tag = 1, msg_body = TClunk 4\<rparr>" sample_server]
    routing_errors [of "sample_fs returns" "\<lparr>msg_tag = 1, msg_body = RClunk\<rparr>" sample_server]
    routing_errors [of "sample_fs returns" "\<lparr>msg_tag = 1, msg_body = TAttach 6 4 [] [] 0\<rparr>" sample_server]
  by (auto simp: make_newfid_def newfid_of_def refusal_def looked_up_def fids_of_def sample_server_def
      route_def get_newfid_def or_return_def sample_fs_def default_filesystem_def ok_def)

section \<open>What a request does to the table\<close>

lemma dispatch_table:
  assumes "dispatch_once fs msg sv = (res, sv')"
  shows "srv_fids sv' k =
    (if isl res then srv_fids sv k
     else if newfid_of (msg_body msg) = Some k
       then Some \<lparr>fid_num = k, fid_aux = fst (fs_default fs (srv_fs sv))\<rparr>
     else if msg_body msg = TClunk k then None
     else srv_fids sv k)"
  using assms
  by (auto simp: dispatch_once_def make_newfid_def insert_newfid_apply drop_clunked_apply
      split: prod.splits sum.splits option.splits)

text \<open>
  C5. A request that fails leaves the fid table as it was. A request that succeeds removes
  the fid of a \<^verbatim>\<open>TClunk\<close>, binds the new fid of a walk, attach, auth or attribute walk to
  fresh data, whether or not it was in use, and touches no other entry.
\<close>

theorem dispatch_table_effect:
  assumes "dispatch_once fs msg sv = (res, sv')"
  shows "srv_fids sv' k =
    (if isl res then srv_fids sv k
     else if newfid_of (msg_body msg) = Some k
       then Some \<lparr>fid_num = k, fid_aux = fst (fs_default fs (srv_fs sv))\<rparr>
     else if msg_body msg = TClunk k then None
     else srv_fids sv k)"
  using assms by (rule dispatch_table)

theorem dispatch_table_effect_witness:
  "srv_fids (snd (dispatch_once (sample_fs returns) \<lparr>msg_tag = 1, msg_body = TClunk 5\<rparr> sample_server)) 5 = None \<and>
   srv_fids (snd (dispatch_once (sample_fs returns) \<lparr>msg_tag = 1, msg_body = TAttach 7 NOFID [] [] 0\<rparr> sample_server)) 7 =
     Some \<lparr>fid_num = 7, fid_aux = ()\<rparr>"
proof -
  let ?c = "\<lparr>msg_tag = 1, msg_body = TClunk 5\<rparr>" and ?a = "\<lparr>msg_tag = 1, msg_body = TAttach 7 NOFID [] [] 0\<rparr>"
  have c: "\<not> isl (fst (dispatch_once (sample_fs returns) ?c sample_server))"
    by (simp add: dispatch_once_def make_newfid_def newfid_of_def run_method_def route_def get_fid_def
        sample_server_def sample_fs_def ok_def)
  have a: "\<not> isl (fst (dispatch_once (sample_fs returns) ?a sample_server))"
    by (simp add: dispatch_once_def make_newfid_def newfid_of_def run_method_def route_def get_newfid_def
        sample_server_def sample_fs_def default_filesystem_def ok_def)
  show ?thesis
    using c a dispatch_table_effect [OF prod.collapse [symmetric], of "sample_fs returns" ?c sample_server 5]
      dispatch_table_effect [OF prod.collapse [symmetric], of "sample_fs returns" ?a sample_server 7]
    by (simp add: newfid_of_def)
qed

text \<open>
  Once a \<^verbatim>\<open>TClunk\<close> has succeeded its fid is gone: any request that uses it is refused
  with \<^verbatim>\<open>EBADF\<close>, until a new fid takes the number.
\<close>

lemma clunked_fid_is_gone:
  assumes "dispatch_once fs \<lparr>msg_tag = tag, msg_body = TClunk fid\<rparr> sv = (Inr response, sv')"
    and "is_t (msg_type_of body)" and "fid \<in> looked_up body"
  shows "fst (dispatch_once fs \<lparr>msg_tag = tag', msg_body = body\<rparr> sv') = Inl (No EBADF)"
proof -
  have gone: "srv_fids sv' fid = None"
    using dispatch_table [OF assms(1), of fid] by (simp add: newfid_of_def)
  obtain newfid s1 where mk: "make_newfid fs body (srv_fs sv') = (newfid, s1)" by fastforce
  have "route fs (srv_fids sv') newfid body = Inl (No EBADF)"
    using gone assms(2,3) by (subst route_refused [OF make_newfid_fid [OF mk]]) auto
  then show ?thesis by (simp add: dispatch_once_def mk run_method_def fail_def)
qed

text \<open>
  A successful \<^verbatim>\<open>TRemove\<close> does not clunk its fid: the whole table is unchanged and the
  fid is still bound.
\<close>

lemma remove_keeps_fid:
  assumes "dispatch_once fs \<lparr>msg_tag = tag, msg_body = TRemove fid\<rparr> sv = (Inr response, sv')"
  shows "srv_fids sv' = srv_fids sv \<and> fid \<in> dom (srv_fids sv')"
proof -
  have same: "srv_fids sv' = srv_fids sv"
    using dispatch_table [OF assms] by (auto simp: newfid_of_def)
  have "fid \<in> dom (srv_fids sv)"
  proof (rule ccontr)
    assume "fid \<notin> dom (srv_fids sv)"
    then have "fids = srv_fids sv \<Longrightarrow> get_fid fids fid = Inl (No EBADF)" for fids
      by (simp add: get_fid_def domIff)
    with assms show False
      by (simp add: dispatch_once_def make_newfid_def newfid_of_def run_method_def route_def fail_def)
  qed
  with same show ?thesis by simp
qed

text \<open>
  The authentication fid of a \<^verbatim>\<open>TAttach\<close> is neither looked up nor handed on: whatever
  it is, the filesystem is called without one.
\<close>

lemma attach_ignores_afid:
  "route fs fids (Some nf) (TAttach fid afid uname aname n_uname) =
     Inr (rattach fs nf None uname aname n_uname)"
  by (simp add: route_def get_newfid_def)

text \<open>
  Version negotiation by the default method: only \<^verbatim>\<open>9P2000.L\<close> is accepted, anything
  else is answered \<^verbatim>\<open>unknown\<close>; the message size is the client's, and no fid is touched.
\<close>

lemma default_version_negotiation:
  assumes "rversion fs = default_rversion returns"
  shows "dispatch_once fs \<lparr>msg_tag = tag, msg_body = TVersion msize version\<rparr> sv =
     (Inr (RVersion msize (if version = P92000L then P92000L else VERSION_UNKNOWN)), sv)"
  using assms
  by (simp add: dispatch_once_def make_newfid_def newfid_of_def run_method_def route_def
      default_rversion_def ok_def insert_newfid_def drop_clunked_def)

end
