(* ===== verification/Host.thy ===== *)
theory Host
  imports Server
begin

unbundle bit_operations_syntax

text \<open>
  What the example server \<^verbatim>\<open>unpfs\<close> uses of its host: paths as \<^verbatim>\<open>std::path::PathBuf\<close>
  builds them, names made UTF-8 by \<^verbatim>\<open>to_string_lossy\<close>, the operating system calls as a
  record of functions over a state \<open>'w\<close> of the world, and the conversions of file
  metadata in \<^verbatim>\<open>crates/rs9p/src/fcall.rs\<close> and \<^verbatim>\<open>crates/unpfs/src/utils.rs\<close>.
\<close>

section \<open>Paths\<close>

type_synonym path = "bytes"

definition slash :: u8 where
  "slash = 0x2F"

definition is_absolute :: "path \<Rightarrow> bool" where
  "is_absolute p \<longleftrightarrow> p \<noteq> [] \<and> hd p = slash"

text \<open>
  \<^verbatim>\<open>PathBuf::push\<close> on Unix: an absolute path replaces the buffer, any other is appended
  behind a separator unless the buffer is empty or ends with one.
\<close>

definition path_push :: "path \<Rightarrow> path \<Rightarrow> path" where
  "path_push p q =
     (if is_absolute q then q
      else if p \<noteq> [] \<and> last p \<noteq> slash then p @ [slash] @ q
      else p @ q)"

text \<open>\<^verbatim>\<open>Path::join\<close> pushes onto a copy.\<close>

definition path_join :: "path \<Rightarrow> path \<Rightarrow> path" where
  "path_join p q = path_push p q"

text \<open>A name that is one component of a path.\<close>

definition plain_name :: "rstring \<Rightarrow> bool" where
  "plain_name n \<longleftrightarrow> n \<noteq> [] \<and> slash \<notin> set n \<and> n \<noteq> ascii ''.'' \<and> n \<noteq> ascii ''..''"

lemma path_push_plain:
  "p \<noteq> [] \<Longrightarrow> last p \<noteq> slash \<Longrightarrow> plain_name n \<Longrightarrow> path_push p n = p @ slash # n"
  by (cases n) (auto simp: path_push_def is_absolute_def plain_name_def)

lemma path_push_absolute: "is_absolute q \<Longrightarrow> path_push p q = q"
  by (simp add: path_push_def)

section \<open>Names made UTF-8\<close>

text \<open>
  One step of the scan of \<^verbatim>\<open>core::str::lossy\<close>: whether the bytes start with a character,
  and how many bytes the character, or the malformed chunk, takes.
\<close>

definition second_ok :: "u8 \<Rightarrow> u8 \<Rightarrow> bool" where
  "second_ok b0 b1 \<longleftrightarrow>
     (if b0 = 0xE0 then 0xA0 \<le> b1 \<and> b1 \<le> 0xBF
      else if b0 = 0xED then 0x80 \<le> b1 \<and> b1 \<le> 0x9F
      else if b0 = 0xF0 then 0x90 \<le> b1 \<and> b1 \<le> 0xBF
      else if b0 = 0xF4 then 0x80 \<le> b1 \<and> b1 \<le> 0x8F
      else utf8_cont b1)"

definition utf8_step :: "u8 \<Rightarrow> bytes \<Rightarrow> bool \<times> nat" where
  "utf8_step b0 r =
     (if b0 < 0x80 then (True, 1)
      else if 0xC2 \<le> b0 \<and> b0 \<le> 0xDF then
        (case r of b1 # _ \<Rightarrow> if utf8_cont b1 then (True, 2) else (False, 1) | [] \<Rightarrow> (False, 1))
      else if 0xE0 \<le> b0 \<and> b0 \<le> 0xEF then
        (case r of
           [] \<Rightarrow> (False, 1)
         | b1 # r1 \<Rightarrow>
             if \<not> second_ok b0 b1 then (False, 1)
             else (case r1 of b2 # _ \<Rightarrow> if utf8_cont b2 then (True, 3) else (False, 2) | [] \<Rightarrow> (False, 2)))
      else if 0xF0 \<le> b0 \<and> b0 \<le> 0xF4 then
        (case r of
           [] \<Rightarrow> (False, 1)
         | b1 # r1 \<Rightarrow>
             if \<not> second_ok b0 b1 then (False, 1)
             else (case r1 of
                     [] \<Rightarrow> (False, 2)
                   | b2 # r2 \<Rightarrow>
                       if \<not> utf8_cont b2 then (False, 2)
                       else (case r2 of b3 # _ \<Rightarrow> if utf8_cont b3 then (True, 4) else (False, 3)
                                     | [] \<Rightarrow> (False, 3))))
      else (False, 1))"

text \<open>U+FFFD.\<close>

definition replacement :: bytes where
  "replacement = [0xEF, 0xBF, 0xBD]"

lemma utf8_step_pos: "0 < snd (utf8_step b r)"
  by (simp add: utf8_step_def split: list.splits)

function to_string_lossy :: "bytes \<Rightarrow> rstring" where
  "to_string_lossy [] = []"
| "to_string_lossy (b # s) =
     (case utf8_step b s of (valid, n) \<Rightarrow>
        (if valid then take n (b # s) else replacement) @ to_string_lossy (drop n (b # s)))"
  by pat_completeness auto
termination
proof (relation "measure length")
  fix b :: u8 and s valid n
  assume "(valid, n) = utf8_step b s"
  then have "0 < n" using utf8_step_pos [of b s] by (metis snd_conv)
  then show "(drop n (b # s), b # s) \<in> measure length" by simp
qed simp

lemma utf8_valid_replacement: "utf8_valid (replacement @ s) = utf8_valid s"
  by (simp add: replacement_def utf8_cont_def)

text \<open>The scan accepts what \<open>utf8_valid\<close> accepts, one class of first bytes at a time.\<close>

lemma lead_cases:
  obtains (one) "(b :: u8) < 0x80"
  | (two) "\<not> b < 0x80" "0xC2 \<le> b \<and> b \<le> 0xDF"
  | (three) "\<not> b < 0x80" "\<not> (0xC2 \<le> b \<and> b \<le> 0xDF)" "0xE0 \<le> b \<and> b \<le> 0xEF" "b \<noteq> 0xF0" "b \<noteq> 0xF4"
  | (four) "\<not> b < 0x80" "\<not> (0xC2 \<le> b \<and> b \<le> 0xDF)" "\<not> (0xE0 \<le> b \<and> b \<le> 0xEF)"
      "0xF0 \<le> b \<and> b \<le> 0xF4" "b \<noteq> 0xE0" "b \<noteq> 0xED"
  | (bad) "\<not> b < 0x80" "\<not> (0xC2 \<le> b \<and> b \<le> 0xDF)" "\<not> (0xE0 \<le> b \<and> b \<le> 0xEF)"
      "\<not> (0xF0 \<le> b \<and> b \<le> 0xF4)"
proof -
  have "b \<le> 0xEF \<Longrightarrow> b \<noteq> 0xF0 \<and> b \<noteq> 0xF4" "0xF0 \<le> b \<Longrightarrow> b \<noteq> 0xE0 \<and> b \<noteq> 0xED" by auto
  with that show thesis by blast
qed

lemma utf8_valid_iff_step:
  "utf8_valid (b # r) \<longleftrightarrow> fst (utf8_step b r) \<and> utf8_valid (drop (snd (utf8_step b r)) (b # r))"
proof (cases b rule: lead_cases)
  case one
  then show ?thesis by (simp add: utf8_step_def)
next
  case two
  then show ?thesis by (cases r) (simp_all add: utf8_step_def)
next
  case three
  then show ?thesis
    by (cases r; cases "tl r") (simp_all only: utf8_valid.simps utf8_step_def second_ok_def, auto)
next
  case four
  then show ?thesis
    by (cases r; cases "tl r"; cases "tl (tl r)")
      (simp_all only: utf8_valid.simps utf8_step_def second_ok_def, auto)
next
  case bad
  then show ?thesis
    unfolding utf8_valid.simps utf8_step_def bad [THEN if_not_P] by simp
qed

lemma utf8_step_prefix:
  assumes "utf8_step b s = (True, Suc n)"
  shows "n \<le> length s \<and> utf8_step b (take n s @ t) = (True, Suc n)"
proof (cases b rule: lead_cases)
  case one
  with assms show ?thesis by (simp add: utf8_step_def)
next
  case two
  with assms show ?thesis by (cases s) (auto simp: utf8_step_def split: if_splits)
next
  case three
  with assms show ?thesis
    by (cases s; cases "tl s") (auto simp: utf8_step_def split: if_splits)
next
  case four
  with assms show ?thesis
    by (cases s; cases "tl s"; cases "tl (tl s)") (auto simp: utf8_step_def split: if_splits)
next
  case bad
  with assms show ?thesis
    unfolding utf8_step_def bad [THEN if_not_P] by simp
qed

lemma utf8_step_char:
  assumes "utf8_step b s = (True, n)"
  shows "utf8_valid (take n (b # s) @ t) = utf8_valid t"
proof -
  obtain m where n: "n = Suc m" using assms utf8_step_pos [of b s] by (cases n) simp_all
  from utf8_step_prefix [OF assms [unfolded n], of t] show ?thesis
    using utf8_valid_iff_step [of b "take m s @ t"] by (simp add: n)
qed

lemma utf8_valid_lossy: "utf8_valid (to_string_lossy s)"
proof (induction s rule: to_string_lossy.induct)
  case (2 b s)
  obtain valid n where st: "utf8_step b s = (valid, n)" by fastforce
  with 2 [OF st [symmetric]] utf8_step_char [of b s n] show ?case
    by (cases valid) (simp_all add: utf8_valid_replacement)
qed simp

lemma lossy_of_valid: "utf8_valid s \<Longrightarrow> to_string_lossy s = s"
proof (induction s rule: to_string_lossy.induct)
  case (2 b s)
  obtain n where st: "utf8_step b s = (True, n)" and "utf8_valid (drop n (b # s))"
    using 2(2) utf8_valid_iff_step [of b s] by (metis prod.collapse)
  then have "to_string_lossy (drop n (b # s)) = drop n (b # s)"
    using 2(1) [OF st [symmetric]] by blast
  then show ?case by (simp add: st del: drop_Cons' take_Cons')
qed simp

section \<open>The operating system\<close>

text \<open>
  \<^verbatim>\<open>std::fs::Metadata\<close> as its accessors give it; a signed 64-bit field is its 64 bits, so
  that the cast \<^verbatim>\<open>as u64\<close> is the identity.
\<close>

record Metadata =
  md_is_dir :: bool
  md_is_symlink :: bool
  md_ino :: u64
  md_mode :: u32
  md_uid :: u32
  md_gid :: u32
  md_nlink :: u64
  md_rdev :: u64
  md_size :: u64
  md_blksize :: u64
  md_blocks :: u64
  md_atime :: u64
  md_atime_nsec :: u64
  md_mtime :: u64
  md_mtime_nsec :: u64
  md_ctime :: u64
  md_ctime_nsec :: u64

text \<open>\<^verbatim>\<open>nix::sys::statvfs::Statvfs\<close>.\<close>

record Statvfs =
  vfs_block_size :: u64
  vfs_blocks :: u64
  vfs_blocks_free :: u64
  vfs_blocks_available :: u64
  vfs_files :: u64
  vfs_files_free :: u64
  vfs_filesystem_id :: u64
  vfs_name_max :: u64

text \<open>\<^verbatim>\<open>filetime::FileTime\<close>: seconds and nanoseconds.\<close>

record FileTime =
  ft_seconds :: u64
  ft_nanos :: u32

text \<open>An entry of a directory stream and an open file.\<close>

record entry =
  entry_path :: path
  entry_name :: bytes

type_synonym fd = nat

text \<open>
  The calls the server makes, as parameters: \<^verbatim>\<open>tokio::fs\<close>, \<^verbatim>\<open>nix\<close>, \<^verbatim>\<open>filetime\<close> and the
  constants and flag types of \<^verbatim>\<open>libc\<close>. A directory stream is the list of what it yields.
\<close>

record 'w os =
  O_WRONLY :: u32
  O_RDONLY :: u32
  O_RDWR :: u32
  O_CREAT :: u32
  O_TRUNC :: u32
  oflag_truncate :: "u32 \<Rightarrow> u32"       \<comment> \<open>\<^verbatim>\<open>OFlag::from_bits_truncate\<close>\<close>
  mode_truncate :: "u32 \<Rightarrow> u32"        \<comment> \<open>\<^verbatim>\<open>Mode::from_bits_truncate\<close>\<close>
  last_access_time :: "Metadata \<Rightarrow> FileTime"
  last_modification_time :: "Metadata \<Rightarrow> FileTime"
  os_symlink_metadata :: "path \<Rightarrow> ('w, io_error, Metadata) comp"
  os_metadata :: "path \<Rightarrow> ('w, io_error, Metadata) comp"
  os_entry_metadata :: "entry \<Rightarrow> ('w, io_error, Metadata) comp"
  os_set_permissions :: "path \<Rightarrow> u32 \<Rightarrow> ('w, io_error, unit) comp"
  os_chown :: "path \<Rightarrow> u32 option \<Rightarrow> u32 option \<Rightarrow> ('w, errno, unit) comp"
  os_open_write :: "path \<Rightarrow> ('w, io_error, fd) comp" \<comment> \<open>\<^verbatim>\<open>OpenOptions\<close> with \<^verbatim>\<open>write(true).create(false)\<close>\<close>
  os_set_len :: "fd \<Rightarrow> u64 \<Rightarrow> ('w, io_error, unit) comp"
  os_set_file_times :: "path \<Rightarrow> FileTime \<Rightarrow> FileTime \<Rightarrow> ('w, io_error, unit) comp"
  os_read_link :: "path \<Rightarrow> ('w, io_error, path) comp"
  os_read_dir :: "path \<Rightarrow> ('w, io_error, (io_error + entry) list) comp"
  os_open :: "path \<Rightarrow> u32 \<Rightarrow> u32 \<Rightarrow> ('w, errno, fd) comp"
  os_seek :: "fd \<Rightarrow> u64 \<Rightarrow> ('w, io_error, unit) comp"  \<comment> \<open>\<^verbatim>\<open>SeekFrom::Start\<close>\<close>
  os_read :: "fd \<Rightarrow> nat \<Rightarrow> ('w, io_error, bytes) comp" \<comment> \<open>the bytes put in a buffer of this size\<close>
  os_write :: "fd \<Rightarrow> bytes \<Rightarrow> ('w, io_error, nat) comp"
  os_sync_all :: "fd \<Rightarrow> ('w, io_error, unit) comp"
  os_create_dir :: "path \<Rightarrow> ('w, io_error, unit) comp"
  os_rename :: "path \<Rightarrow> path \<Rightarrow> ('w, io_error, unit) comp"
  os_remove_dir :: "path \<Rightarrow> ('w, io_error, unit) comp"
  os_remove_file :: "path \<Rightarrow> ('w, io_error, unit) comp"
  os_statvfs :: "path \<Rightarrow> ('w, errno, Statvfs) comp"
  os_try_exists :: "path \<Rightarrow> ('w, io_error, bool) comp"
  os_create_dir_all :: "path \<Rightarrow> ('w, io_error, unit) comp"

section \<open>Conversions\<close>

text \<open>\<^verbatim>\<open>From<&FileType> for QIdType\<close>.\<close>

definition QIdType_from_file_type :: "Metadata \<Rightarrow> u8" where
  "QIdType_from_file_type attr =
     (let q0 = QIdType_FILE;
          q1 = (if md_is_dir attr then q0 OR QIdType_DIR else q0)
      in (if md_is_symlink attr then q1 OR QIdType_SYMLINK else q1))"

text \<open>\<^verbatim>\<open>From<&fs::Metadata> for Stat\<close> and \<^verbatim>\<open>From<Statvfs> for StatFs\<close>.\<close>

definition Stat_from_Metadata :: "Metadata \<Rightarrow> Stat" where
  "Stat_from_Metadata attr =
     \<lparr>stat_mode = md_mode attr, stat_uid = md_uid attr, stat_gid = md_gid attr,
      stat_nlink = md_nlink attr, stat_rdev = md_rdev attr, stat_size = md_size attr,
      stat_blksize = md_blksize attr, stat_blocks = md_blocks attr,
      stat_atime = \<lparr>time_sec = md_atime attr, time_nsec = md_atime_nsec attr\<rparr>,
      stat_mtime = \<lparr>time_sec = md_mtime attr, time_nsec = md_mtime_nsec attr\<rparr>,
      stat_ctime = \<lparr>time_sec = md_ctime attr, time_nsec = md_ctime_nsec attr\<rparr>\<rparr>"

definition StatFs_from_Statvfs :: "Statvfs \<Rightarrow> StatFs" where
  "StatFs_from_Statvfs buf =
     \<lparr>sfs_typ = 0, sfs_bsize = ucast (vfs_block_size buf), sfs_blocks = vfs_blocks buf,
      sfs_bfree = vfs_blocks_free buf, sfs_bavail = vfs_blocks_available buf,
      sfs_files = vfs_files buf, sfs_ffree = vfs_files_free buf,
      sfs_fsid = vfs_filesystem_id buf, sfs_namelen = ucast (vfs_name_max buf)\<rparr>"

definition qid_from_attr :: "Metadata \<Rightarrow> QId" where
  "qid_from_attr attr =
     \<lparr>qid_typ = QIdType_from_file_type attr, qid_version = 0, qid_path = md_ino attr\<rparr>"

section \<open>Calls from a filesystem method\<close>

text \<open>A call on the world with its error converted by \<^verbatim>\<open>?\<close>.\<close>

definition converting :: "('e \<Rightarrow> error) \<Rightarrow> ('w, 'e, 'a) comp \<Rightarrow> ('w, error, 'a) comp" where
  "converting conv op w = (case op w of (Inl e, w') \<Rightarrow> (Inl (conv e), w') | (Inr x, w') \<Rightarrow> (Inr x, w'))"

abbreviation io_call :: "('w, io_error, 'a) comp \<Rightarrow> ('w, error, 'a) comp" where
  "io_call \<equiv> converting error_from_io"

abbreviation nix_call :: "('w, errno, 'a) comp \<Rightarrow> ('w, error, 'a) comp" where
  "nix_call \<equiv> converting error_from_nix"

definition get_qid :: "'w os \<Rightarrow> path \<Rightarrow> ('w, error, QId) comp" where
  "get_qid S p =
     and_then (io_call (os_symlink_metadata S p)) (\<lambda>attr. ok (qid_from_attr attr))"

definition get_dirent_from :: "'w os \<Rightarrow> path \<Rightarrow> u64 \<Rightarrow> ('w, error, DirEntry) comp" where
  "get_dirent_from S p offset =
     and_then (get_qid S p) (\<lambda>qid.
     ok \<lparr>de_qid = qid, de_offset = offset, de_typ = 0, de_name = to_string_lossy p\<rparr>)"

definition get_dirent :: "'w os \<Rightarrow> entry \<Rightarrow> u64 \<Rightarrow> ('w, error, DirEntry) comp" where
  "get_dirent S e offset =
     and_then (io_call (os_entry_metadata S e)) (\<lambda>attr.
     ok \<lparr>de_qid = qid_from_attr attr, de_offset = offset, de_typ = 0,
         de_name = to_string_lossy (entry_name e)\<rparr>)"

lemma converting_Inr: "op w = (Inr x, w') \<Longrightarrow> converting conv op w = (Inr x, w')"
  by (simp add: converting_def)

lemma converting_Inl: "op w = (Inl e, w') \<Longrightarrow> converting conv op w = (Inl (conv e), w')"
  by (simp add: converting_def)

text \<open>
  The type of a qid has declared bits only, and the directory bit exactly for a directory;
  so the qid of any file can be carried on the wire.
\<close>

lemma qid_typ_dir: "qid_typ (qid_from_attr attr) AND QIdType_DIR \<noteq> 0 \<longleftrightarrow> md_is_dir attr"
  by (simp add: qid_from_attr_def QIdType_from_file_type_def Let_def)

end
