(* ===== verification/Framing.thy ===== *)
theory Framing
  imports Prelude
begin

text \<open>
  The framing of a connection: \<^verbatim>\<open>dispatch\<close> of \<^verbatim>\<open>crates/rs9p/src/srv.rs\<close> builds a
  \<^verbatim>\<open>LengthDelimitedCodec\<close> of the crate \<^verbatim>\<open>tokio_util\<close> for each direction. The codec is a
  parameter: what it makes of the bytes of a stream and of the payload of a frame. The
  locale \<open>codec_laws\<close> states what its documentation promises for the configuration that is
  used; \<open>documented_codec\<close> is the codec the documentation describes.
\<close>

text \<open>What the builder of the codec is told.\<close>

record framing =
  length_field_offset :: nat
  length_field_length :: nat
  length_adjustment :: int
  little_endian :: bool

definition dispatch_framing :: framing where
  "dispatch_framing =
     \<lparr>length_field_offset = 0, length_field_length = 4, length_adjustment = - 4, little_endian = True\<rparr>"

text \<open>
  The items a reader yields on a stream of bytes that ends, and the bytes a writer puts out
  for a frame, if it accepts it.
\<close>

record codec =
  codec_items :: "framing \<Rightarrow> bytes \<Rightarrow> (io_error + bytes) list"
  codec_frame :: "framing \<Rightarrow> bytes \<Rightarrow> io_error + bytes"

text \<open>The default of \<^verbatim>\<open>max_frame_length\<close>, which the program leaves as it is.\<close>

definition max_frame_length :: nat where
  "max_frame_length = 8 * 1024 * 1024"

text \<open>A frame of 9P: the size of the whole message, itself included, before it.\<close>

definition framed :: "bytes \<Rightarrow> bytes" where
  "framed p = le_bytes 4 (length p + 4) @ p"

locale codec_laws =
  fixes F :: codec
  assumes items_end: "codec_items F dispatch_framing [] = []"
    and items_framed: "length p + 4 \<le> max_frame_length \<Longrightarrow>
      codec_items F dispatch_framing (framed p @ rest) = Inr p # codec_items F dispatch_framing rest"
    and items_refused: "n < 4 \<or> max_frame_length < n \<and> n < 2 ^ 32 \<Longrightarrow>
      \<exists>e. codec_items F dispatch_framing (le_bytes 4 n @ rest) = [Inl e]"
    and frame_fits: "length p \<le> max_frame_length \<Longrightarrow> codec_frame F dispatch_framing p = Inr (framed p)"
    and frame_refused: "max_frame_length < length p \<Longrightarrow> \<exists>e. codec_frame F dispatch_framing p = Inl e"
begin

lemma items_all:
  "list_all (\<lambda>p. length p + 4 \<le> max_frame_length) ps \<Longrightarrow>
     codec_items F dispatch_framing (concat (map framed ps) @ rest) =
       map Inr ps @ codec_items F dispatch_framing rest"
  by (induction ps) (simp_all add: items_framed)

lemma frame_Inr: "codec_frame F dispatch_framing p = Inr b \<longleftrightarrow> length p \<le> max_frame_length \<and> b = framed p"
  using frame_fits [of p] frame_refused [of p] by (cases "length p \<le> max_frame_length") auto

end

section \<open>The documented codec\<close>

definition length_field :: "framing \<Rightarrow> bytes \<Rightarrow> nat" where
  "length_field c bs = le_nat (if little_endian c then bs else rev bs)"

abbreviation bytes_remaining :: io_error where
  "bytes_remaining \<equiv> Custom Other ''bytes remaining on stream''"

function documented_items :: "framing \<Rightarrow> bytes \<Rightarrow> (io_error + bytes) list" where
  "documented_items c bs =
     (let head = length_field_offset c + length_field_length c;
          n = length_field c (take (length_field_length c) (drop (length_field_offset c) bs));
          m = int n + length_adjustment c;
          rest = drop head bs
      in if bs = [] \<or> head = 0 then []
         else if length bs < head then [Inl bytes_remaining]
         else if max_frame_length < n then [Inl (Custom InvalidData ''frame size too big'')]
         else if m < 0 then [Inl (Custom InvalidInput ''provided length would overflow after adjustment'')]
         else if length rest < nat m then (if rest = [] then [] else [Inl bytes_remaining])
         else Inr (take (nat m) rest) # documented_items c (drop (nat m) rest))"
  by pat_completeness auto
termination
  by (relation "measure (\<lambda>(c, bs). length bs)") (auto simp: Let_def)

declare documented_items.simps [simp del]

definition documented_frame :: "framing \<Rightarrow> bytes \<Rightarrow> io_error + bytes" where
  "documented_frame c p =
     (let n = nat (int (length p) - length_adjustment c);
          len = le_bytes (length_field_length c) n
      in if max_frame_length < length p then Inl (Custom InvalidInput ''frame size too big'')
         else Inr ((if little_endian c then len else rev len) @ p))"

definition documented_codec :: codec where
  "documented_codec = \<lparr>codec_items = documented_items, codec_frame = documented_frame\<rparr>"

lemma documented_items_head:
  assumes "n < 2 ^ 32"
  shows "documented_items dispatch_framing (le_bytes 4 n @ rest) =
    (if max_frame_length < n then [Inl (Custom InvalidData ''frame size too big'')]
     else if n < 4 then [Inl (Custom InvalidInput ''provided length would overflow after adjustment'')]
     else if length rest < n - 4 then (if rest = [] then [] else [Inl bytes_remaining])
     else Inr (take (n - 4) rest) # documented_items dispatch_framing (drop (n - 4) rest))"
proof -
  have "length_field dispatch_framing (le_bytes 4 n) = n"
    using assms by (simp add: length_field_def dispatch_framing_def le_nat_le_bytes)
  moreover have "le_bytes 4 n @ rest \<noteq> []"
    by (metis append_is_Nil_conv length_le_bytes list.size(3) zero_neq_numeral)
  ultimately show ?thesis
    by (subst documented_items.simps) (auto simp: Let_def dispatch_framing_def nat_diff_distrib')
qed

lemma documented_codec_laws: "codec_laws documented_codec"
proof unfold_locales
  show "codec_items documented_codec dispatch_framing [] = []"
    by (simp add: documented_codec_def documented_items.simps)
next
  fix p rest :: bytes
  assume "length p + 4 \<le> max_frame_length"
  then show "codec_items documented_codec dispatch_framing (framed p @ rest) =
      Inr p # codec_items documented_codec dispatch_framing rest"
    by (simp add: documented_codec_def framed_def documented_items_head max_frame_length_def)
next
  fix n :: nat and rest :: bytes
  assume "n < 4 \<or> max_frame_length < n \<and> n < 2 ^ 32"
  then show "\<exists>e. codec_items documented_codec dispatch_framing (le_bytes 4 n @ rest) = [Inl e]"
    by (auto simp: documented_codec_def documented_items_head max_frame_length_def)
next
  fix p :: bytes
  assume "length p \<le> max_frame_length"
  then show "codec_frame documented_codec dispatch_framing p = Inr (framed p)"
    by (simp add: documented_codec_def documented_frame_def dispatch_framing_def framed_def nat_add_distrib)
next
  fix p :: bytes
  assume "max_frame_length < length p"
  then show "\<exists>e. codec_frame documented_codec dispatch_framing p = Inl e"
    by (simp add: documented_codec_def documented_frame_def)
qed

interpretation documented_framing: codec_laws documented_codec
  by (rule documented_codec_laws)

end
