(* ===== verification/Connection.thy ===== *)
theory Connection
  imports Server Serialize Framing "HOL-Library.Multiset"
begin

text \<open>
  One connection, the function \<^verbatim>\<open>dispatch\<close> of \<^verbatim>\<open>crates/rs9p/src/srv.rs\<close>. Its loop reads
  the frames the codec makes of the bytes of the client, decodes each into a request and spawns a
  task for it; the tasks share the fid table, the filesystem and the sending side. A task
  looks its fids up and runs its method under the read lock of the table, piece by piece,
  then takes the write lock to drop a clunked fid, then again to insert a new fid, then
  sends its reply under the lock of the sink. Between any two of these moves any other task
  may run, as far as the lock of the table and the locks of the filesystem let it. A step relation gives every
  interleaving. The tasks are detached: they go on after \<^verbatim>\<open>dispatch\<close> itself has returned.
\<close>

section \<open>State\<close>

text \<open>
  How far the task of a request is: \<open>Running\<close> while it holds the read lock and its method
  is at the given future; \<open>Handled\<close> after the method succeeded, \<open>Removed\<close> after
  the clunked fid was dropped, \<open>Responding\<close> when the response is known, \<open>Finished\<close> at
  the end.
\<close>

datatype ('aux, 's) pc =
    Spawned
  | Running "'aux FId option" "('s, error + fcall) future"
  | Handled fcall "'aux FId option"
  | Removed fcall "'aux FId option"
  | Responding fcall
  | Finished

text \<open>
  The frames still to come, an I/O error or the bytes of a frame; the value \<^verbatim>\<open>dispatch\<close>
  returned; the shared server; the tasks in the order of their requests; the sending side,
  with the frames the stream has taken and those that still wait in the buffer of the sink.
\<close>

record sink =
  sink_sent :: "bytes list"
  sink_buffer :: "bytes list"

record ('aux, 's) conn =
  conn_input :: "(io_error + bytes) list"
  conn_result :: "(error + unit) option"
  conn_server :: "('aux, 's) server"
  conn_tasks :: "(Msg \<times> ('aux, 's) pc) list"
  conn_sink :: sink

abbreviation conn_sent :: "('aux, 's) conn \<Rightarrow> bytes list" where
  "conn_sent c \<equiv> sink_sent (conn_sink c)"

abbreviation conn_waiting :: "('aux, 's) conn \<Rightarrow> bytes list" where
  "conn_waiting c \<equiv> sink_buffer (conn_sink c)"

text \<open>
  What the connection runs with; \<open>env_buffer\<close> is the writer over a fresh \<^verbatim>\<open>BytesMut\<close>,
  \<open>env_codec\<close> the codec of the frames.
\<close>

record ('aux, 's) env =
  env_fs :: "('aux, 's) concurrent_fs"
  env_crates :: crates
  env_nix :: nix
  env_buffer :: writer
  env_codec :: codec

definition conn_start :: "(io_error + bytes) list \<Rightarrow> 's \<Rightarrow> ('aux, 's) conn" where
  "conn_start frames s =
     \<lparr>conn_input = frames, conn_result = None,
      conn_server = \<lparr>srv_fids = Map.empty, srv_fs = s\<rparr>, conn_tasks = [],
      conn_sink = \<lparr>sink_sent = [], sink_buffer = []\<rparr>\<rparr>"

text \<open>A connection on a stream of bytes that ends.\<close>

definition conn_over :: "('aux, 's) env \<Rightarrow> bytes \<Rightarrow> 's \<Rightarrow> ('aux, 's) conn" where
  "conn_over E input s = conn_start (codec_items (env_codec E) dispatch_framing input) s"

section \<open>Steps\<close>

text \<open>One round of the loop; \<open>None\<close> once \<^verbatim>\<open>dispatch\<close> has returned.\<close>

definition receive :: "('aux, 's) env \<Rightarrow> ('aux, 's) conn \<Rightarrow> ('aux, 's) conn option" where
  "receive E c =
     (case conn_result c of
        Some _ \<Rightarrow> None
      | None \<Rightarrow>
          (case conn_input c of
             [] \<Rightarrow> Some (c\<lparr>conn_result := Some (Inr ())\<rparr>)
           | Inl e # rest \<Rightarrow>
               Some (c\<lparr>conn_input := rest, conn_result := Some (Inl (error_from_io e))\<rparr>)
           | Inr bytes # rest \<Rightarrow>
               (case fst (read_msg (env_crates E) bytes) of
                  Inl e \<Rightarrow>
                    Some (c\<lparr>conn_input := rest, conn_result := Some (Inl (error_from_io e))\<rparr>)
                | Inr msg \<Rightarrow>
                    Some (c\<lparr>conn_input := rest, conn_tasks := conn_tasks c @ [(msg, Spawned)]\<rparr>))))"

text \<open>
  What the stream does with a frame that is sent: it takes all that waits and the frame, or
  fails after it has taken \<open>n\<close> of the frames that wait. The frame itself is dropped when the
  buffer was full and could not be emptied before it, and otherwise waits with the rest: a
  later send may still bring it out.
\<close>

datatype outcome = Accepted | Failed (taken: nat) (kept: bool)

definition put_frame :: "outcome \<Rightarrow> bytes \<Rightarrow> sink \<Rightarrow> sink" where
  "put_frame out frame k =
     (case out of
        Accepted \<Rightarrow> \<lparr>sink_sent = sink_sent k @ sink_buffer k @ [frame], sink_buffer = []\<rparr>
      | Failed n keep \<Rightarrow>
          (let waiting = sink_buffer k @ (if keep then [frame] else []) in
           \<lparr>sink_sent = sink_sent k @ take n waiting, sink_buffer = drop n waiting\<rparr>))"

text \<open>
  Sending a payload: the codec makes it a frame or refuses it, then the stream may fail. Both
  errors are only logged.
\<close>

definition send :: "('aux, 's) env \<Rightarrow> outcome \<Rightarrow> bytes \<Rightarrow> sink \<Rightarrow> sink" where
  "send E out payload k =
     (case codec_frame (env_codec E) dispatch_framing payload of
        Inl e \<Rightarrow> k
      | Inr frame \<Rightarrow> put_frame out frame k)"

text \<open>
  One move of a task, on the server and the sink.
\<close>

definition advance ::
  "('aux, 's) env \<Rightarrow> outcome \<Rightarrow> Msg \<Rightarrow> ('aux, 's) pc \<Rightarrow> ('aux, 's) server \<Rightarrow> sink \<Rightarrow>
    ('aux, 's) pc \<times> ('aux, 's) server \<times> sink" where
  "advance E out msg pc sv k =
     (case pc of
        Spawned \<Rightarrow>
          (case make_newfid (env_fs E) (msg_body msg) (srv_fs sv) of (newfid, s1) \<Rightarrow>
           (case route (env_fs E) (srv_fids sv) newfid (msg_body msg) of
              Inl e \<Rightarrow> (Responding (response_of (env_nix E) (Inl e)), sv\<lparr>srv_fs := s1\<rparr>, k)
            | Inr fut \<Rightarrow> (Running newfid fut, sv\<lparr>srv_fs := s1\<rparr>, k)))
      | Running newfid fut \<Rightarrow>
          (case fut of
             Await want held upd nxt \<Rightarrow>
               (Running newfid (nxt (srv_fs sv)), sv\<lparr>srv_fs := upd (srv_fs sv)\<rparr>, k)
           | Ready (Inl e) \<Rightarrow> (Responding (response_of (env_nix E) (Inl e)), sv, k)
           | Ready (Inr response) \<Rightarrow> (Handled response newfid, sv, k))
      | Handled response newfid \<Rightarrow>
          (Removed response newfid,
           sv\<lparr>srv_fids := drop_clunked (msg_body msg) (srv_fids sv)\<rparr>, k)
      | Removed response newfid \<Rightarrow>
          (Responding response, sv\<lparr>srv_fids := insert_newfid newfid (srv_fids sv)\<rparr>, k)
      | Responding response \<Rightarrow>
          if is_r (msg_type_of response) then
            (case write_msg (env_crates E) \<lparr>msg_tag = msg_tag msg, msg_body = response\<rparr> (env_buffer E) of
               (Inl e, w) \<Rightarrow> (Finished, sv, k)
             | (Inr n, w) \<Rightarrow> (Finished, sv, send E out (written w) k))
          else (Finished, sv, k)
      | Finished \<Rightarrow> (Finished, sv, k))"

definition run_task :: "('aux, 's) env \<Rightarrow> outcome \<Rightarrow> nat \<Rightarrow> ('aux, 's) conn \<Rightarrow> ('aux, 's) conn" where
  "run_task E out i c =
     (case conn_tasks c ! i of (msg, pc) \<Rightarrow>
      case advance E out msg pc (conn_server c) (conn_sink c) of (pc', sv', k') \<Rightarrow>
        c\<lparr>conn_tasks := (conn_tasks c)[i := (msg, pc')], conn_server := sv', conn_sink := k'\<rparr>)"

text \<open>
  The lock of the table: a task that runs its method holds it for reading, a task about to
  drop or insert a fid needs it for writing and waits until no task reads.
\<close>

definition reads_table :: "('aux, 's) pc \<Rightarrow> bool" where
  "reads_table pc = (case pc of Running _ _ \<Rightarrow> True | _ \<Rightarrow> False)"

definition writes_table :: "Msg \<Rightarrow> ('aux, 's) pc \<Rightarrow> bool" where
  "writes_table msg pc =
     (case pc of
        Handled _ _ \<Rightarrow> (case msg_body msg of TClunk _ \<Rightarrow> True | _ \<Rightarrow> False)
      | Removed _ newfid \<Rightarrow> newfid \<noteq> None
      | _ \<Rightarrow> False)"

definition table_read :: "('aux, 's) conn \<Rightarrow> bool" where
  "table_read c = list_ex (\<lambda>t. reads_table (snd t)) (conn_tasks c)"

text \<open>
  The locks of the filesystem: the one a task waits for and those it holds, inside its
  method. A task goes on when no task holds a lock that excludes the one it waits for.
\<close>

definition pc_wants :: "('aux, 's) pc \<Rightarrow> access option" where
  "pc_wants pc = (case pc of Running _ fut \<Rightarrow> wants fut | _ \<Rightarrow> None)"

definition pc_holds :: "('aux, 's) pc \<Rightarrow> access list" where
  "pc_holds pc = (case pc of Running _ fut \<Rightarrow> holds fut | _ \<Rightarrow> [])"

definition conn_held :: "('aux, 's) conn \<Rightarrow> access list" where
  "conn_held c = concat (map (\<lambda>t. pc_holds (snd t)) (conn_tasks c))"

definition can_move :: "('aux, 's) conn \<Rightarrow> nat \<Rightarrow> bool" where
  "can_move c i \<longleftrightarrow>
     (case conn_tasks c ! i of (msg, pc) \<Rightarrow>
        pc \<noteq> Finished \<and> (writes_table msg pc \<longrightarrow> \<not> table_read c) \<and>
        lock_free (pc_wants pc) (conn_held c))"

text \<open>With \<open>lossy\<close> the stream may fail, otherwise it takes every frame.\<close>

inductive conn_step :: "('aux, 's) env \<Rightarrow> bool \<Rightarrow> ('aux, 's) conn \<Rightarrow> ('aux, 's) conn \<Rightarrow> bool"
  for E lossy where
  receive: "receive E c = Some c' \<Longrightarrow> conn_step E lossy c c'"
| task: "i < length (conn_tasks c) \<Longrightarrow> can_move c i \<Longrightarrow> out = Accepted \<or> lossy \<Longrightarrow>
    conn_step E lossy c (run_task E out i c)"

inductive_cases conn_stepE: "conn_step E lossy c c'"

text \<open>
  The state of a filesystem is shared with other connections and processes, which may change
  it between any two steps, as far as \<open>others\<close> says.
\<close>

definition with_fs :: "'s \<Rightarrow> ('aux, 's) conn \<Rightarrow> ('aux, 's) conn" where
  "with_fs s c = c\<lparr>conn_server := (conn_server c)\<lparr>srv_fs := s\<rparr>\<rparr>"

lemma with_fs_simps [simp]:
  "conn_input (with_fs s c) = conn_input c" "conn_result (with_fs s c) = conn_result c"
  "conn_tasks (with_fs s c) = conn_tasks c" "conn_sink (with_fs s c) = conn_sink c"
  "srv_fids (conn_server (with_fs s c)) = srv_fids (conn_server c)"
  "srv_fs (conn_server (with_fs s c)) = s" "with_fs (srv_fs (conn_server c)) c = c"
  by (cases c; cases "conn_server c"; simp add: with_fs_def)+

inductive shared_step ::
  "('aux, 's) env \<Rightarrow> bool \<Rightarrow> ('s \<Rightarrow> 's \<Rightarrow> bool) \<Rightarrow> ('aux, 's) conn \<Rightarrow> ('aux, 's) conn \<Rightarrow> bool"
  for E lossy others where
  own: "conn_step E lossy c c' \<Longrightarrow> shared_step E lossy others c c'"
| outside: "others (srv_fs (conn_server c)) s \<Longrightarrow> shared_step E lossy others c (with_fs s c)"

inductive_cases shared_stepE [consumes 1, case_names own outside]: "shared_step E lossy others c c'"

text \<open>The states a connection can reach among any others.\<close>

inductive conn_reachable :: "('aux, 's) env \<Rightarrow> bool \<Rightarrow> ('aux, 's) conn \<Rightarrow> bool"
  for E lossy where
  start: "conn_reachable E lossy (conn_start frames s)"
| step: "conn_reachable E lossy c \<Longrightarrow> shared_step E lossy (\<lambda>_ _. True) c c' \<Longrightarrow> conn_reachable E lossy c'"

lemma reachable_own: "conn_reachable E lossy c \<Longrightarrow> conn_step E lossy c c' \<Longrightarrow> conn_reachable E lossy c'"
  by (blast intro: conn_reachable.step shared_step.own)

lemma shared_step_any: "shared_step E lossy others c c' \<Longrightarrow> shared_step E lossy (\<lambda>_ _. True) c c'"
  by (auto elim!: shared_stepE intro: shared_step.intros)

lemma shared_reachable:
  "(shared_step E lossy others)\<^sup>*\<^sup>* c c' \<Longrightarrow> conn_reachable E lossy c \<Longrightarrow> conn_reachable E lossy c'"
  by (induction rule: rtranclp_induct) (auto intro: conn_reachable.step shared_step_any)

lemma own_run: "(conn_step E lossy)\<^sup>*\<^sup>* c c' \<Longrightarrow> (shared_step E lossy others)\<^sup>*\<^sup>* c c'"
  by (erule rtranclp_mono [THEN predicate2D, rotated]) (auto intro: shared_step.own)

lemma rtranclp_reachable:
  "(conn_step E lossy)\<^sup>*\<^sup>* c c' \<Longrightarrow> conn_reachable E lossy c \<Longrightarrow> conn_reachable E lossy c'"
  by (rule shared_reachable [OF own_run])

section \<open>The moves, one equation each\<close>

lemma advance_simps [simp]:
  "advance E out msg (Handled r nf) sv k =
     (Removed r nf, sv\<lparr>srv_fids := drop_clunked (msg_body msg) (srv_fids sv)\<rparr>, k)"
  "advance E out msg (Removed r nf) sv k =
     (Responding r, sv\<lparr>srv_fids := insert_newfid nf (srv_fids sv)\<rparr>, k)"
  "advance E out msg (Running nf (Await w h upd nxt)) sv k =
     (Running nf (nxt (srv_fs sv)), sv\<lparr>srv_fs := upd (srv_fs sv)\<rparr>, k)"
  "advance E out msg (Running nf (Ready (Inl e))) sv k =
     (Responding (response_of (env_nix E) (Inl e)), sv, k)"
  "advance E out msg (Running nf (Ready (Inr r))) sv k = (Handled r nf, sv, k)"
  "advance E out msg Finished sv k = (Finished, sv, k)"
  by (simp_all add: advance_def)

lemma pc_cases [case_names Spawned Await Error Success Handled Removed Responding Finished]:
  obtains "pc = Spawned"
  | nf w h upd nxt where "pc = Running nf (Await w h upd nxt)"
  | nf e where "pc = Running nf (Ready (Inl e))"
  | nf r where "pc = Running nf (Ready (Inr r))"
  | r nf where "pc = Handled r nf"
  | r nf where "pc = Removed r nf"
  | r where "pc = Responding r"
  | "pc = Finished"
proof (cases pc)
  case (Running nf fut)
  show thesis
  proof (cases fut)
    case (Ready x)
    then show thesis using that Running by (cases x) auto
  qed (use that Running in blast)
qed (use that in blast)+

lemma lock_simps [simp]:
  "reads_table (Running nf fut)" "\<not> reads_table Spawned" "\<not> reads_table (Handled r nf)"
  "\<not> reads_table (Removed r nf)" "\<not> reads_table (Responding r)" "\<not> reads_table Finished"
  "\<not> writes_table msg Spawned" "\<not> writes_table msg (Running nf fut)"
  "\<not> writes_table msg (Responding r)" "\<not> writes_table msg Finished"
  "writes_table msg (Removed r nf) \<longleftrightarrow> nf \<noteq> None"
  by (simp_all add: reads_table_def writes_table_def)

lemma pc_lock_simps [simp]:
  "pc_wants (Running nf fut) = wants fut" "pc_wants Spawned = None" "pc_wants (Handled r nf) = None"
  "pc_wants (Removed r nf) = None" "pc_wants (Responding r) = None" "pc_wants Finished = None"
  "pc_holds (Running nf fut) = holds fut" "pc_holds Spawned = []" "pc_holds (Handled r nf) = []"
  "pc_holds (Removed r nf) = []" "pc_holds (Responding r) = []" "pc_holds Finished = []"
  by (simp_all add: pc_wants_def pc_holds_def)

lemma set_conn_held: "set (conn_held c) = (\<Union>t \<in> set (conn_tasks c). set (pc_holds (snd t)))"
  by (simp add: conn_held_def)

lemma only_readers_hold: "\<not> reads_table pc \<Longrightarrow> pc_wants pc = None \<and> pc_holds pc = []"
  by (cases pc) simp_all

text \<open>Without a running method no lock is held.\<close>

lemma conn_held_unread: "\<not> table_read c \<Longrightarrow> conn_held c = []"
  by (simp add: table_read_def conn_held_def list_ex_iff only_readers_hold)

lemma conn_held_with_fs [simp]: "conn_held (with_fs s c) = conn_held c"
  by (simp add: conn_held_def)

lemma send_framed:
  assumes "codec_laws (env_codec E)"
  shows "send E out p k = (if length p \<le> max_frame_length then put_frame out (framed p) k else k)"
  using codec_laws.frame_fits [OF assms, of p] codec_laws.frame_refused [OF assms, of p]
  by (cases "length p \<le> max_frame_length") (auto simp: send_def)

text \<open>
  What has left and what waits, together: a frame is added at the end or lost, and lost only
  where the stream fails.
\<close>

lemma put_frame_adds:
  obtains b where
    "sink_sent (put_frame out frame k) @ sink_buffer (put_frame out frame k) =
       sink_sent k @ sink_buffer k @ (if b then [frame] else [])"
    "out = Accepted \<longrightarrow> b \<and> sink_buffer (put_frame out frame k) = []"
proof (cases out)
  case Accepted
  then show thesis using that [of True] by (simp add: put_frame_def)
next
  case (Failed n keep)
  then show thesis using that [of keep] by (simp add: put_frame_def Let_def del: take_append drop_append)
qed

text \<open>A response that can be sent: a reply, within the size of a frame.\<close>

definition reply_wire :: "u16 \<Rightarrow> fcall \<Rightarrow> bytes" where
  "reply_wire tag r = wire_Msg \<lparr>msg_tag = tag, msg_body = r\<rparr>"

definition sendable :: "fcall \<Rightarrow> bool" where
  "sendable r \<longleftrightarrow> is_r (msg_type_of r) \<and> 3 + length (wire_body r) \<le> max_frame_length"

lemma length_reply_wire: "length (reply_wire tag r) = 3 + length (wire_body r)"
  by (simp add: reply_wire_def wire_Msg_def)

lemma advance_responding:
  assumes "crates_laws (env_crates E)" and "codec_laws (env_codec E)" and "env_buffer E = growing"
  shows "advance E out msg (Responding r) sv k =
    (Finished, sv, if sendable r then put_frame out (framed (reply_wire (msg_tag msg) r)) k else k)"
  using assms(3) length_reply_wire [of "msg_tag msg" r]
  by (auto simp: advance_def write_msg_def crates_laws.encode_Msg_emit [OF assms(1)]
      send_framed [OF assms(2)] emit_growing sendable_def reply_wire_def)

lemma conn_task_stepE:
  assumes "conn_step E lossy c c'"
  obtains
    (recv) "receive E c = Some c'"
  | (task) i msg pc pc' sv' k' out where
      "i < length (conn_tasks c)" "conn_tasks c ! i = (msg, pc)" "pc \<noteq> Finished" "out = Accepted \<or> lossy"
      "writes_table msg pc \<longrightarrow> \<not> table_read c"
      "advance E out msg pc (conn_server c) (conn_sink c) = (pc', sv', k')"
      "c' = c\<lparr>conn_tasks := (conn_tasks c)[i := (msg, pc')], conn_server := sv', conn_sink := k'\<rparr>"
      "lock_free (pc_wants pc) (conn_held c)"
  using assms
proof cases
  case receive
  then show ?thesis by (rule recv)
next
  case (task i out)
  obtain msg pc where ti: "conn_tasks c ! i = (msg, pc)" by fastforce
  obtain pc' sv' k' where adv: "advance E out msg pc (conn_server c) (conn_sink c) = (pc', sv', k')"
    by (metis prod_cases3)
  show ?thesis
    by (rule that(2) [OF task(2) ti _ task(4) _ adv]) (use task ti adv in \<open>simp_all add: run_task_def can_move_def\<close>)
qed

lemma receive_cases:
  assumes "receive E c = Some c'"
  obtains
    (close) res rest where "c' = c\<lparr>conn_input := rest, conn_result := Some res\<rparr>"
      "conn_result c = None" "length rest \<le> length (conn_input c)"
  | (spawn) bytes rest msg left where "conn_result c = None" "conn_input c = Inr bytes # rest"
      "read_msg (env_crates E) bytes = (Inr msg, left)"
      "c' = c\<lparr>conn_input := rest, conn_tasks := conn_tasks c @ [(msg, Spawned)]\<rparr>"
proof (cases "conn_result c")
  case None
  show ?thesis
  proof (cases "conn_input c")
    case Nil
    with None assms have "c' = c\<lparr>conn_input := [], conn_result := Some (Inr ())\<rparr>"
      by (cases c) (simp add: receive_def)
    then show ?thesis by (rule close) (simp_all add: None)
  next
    case (Cons x rest)
    show ?thesis
    proof (cases x)
      case (Inl e)
      with None Cons assms show ?thesis by (intro close [where rest = rest]) (auto simp: receive_def)
    next
      case (Inr bytes)
      obtain res left where rd: "read_msg (env_crates E) bytes = (res, left)" by fastforce
      show ?thesis
      proof (cases res)
        case (Inl e)
        with None Cons Inr rd assms show ?thesis by (intro close [where rest = rest]) (auto simp: receive_def)
      next
        case (Inr msg)
        with None Cons \<open>x = Inr bytes\<close> rd assms show ?thesis
          by (intro spawn [of bytes rest msg left]) (auto simp: receive_def)
      qed
    qed
  qed
qed (use assms in \<open>simp add: receive_def\<close>)

section \<open>Termination\<close>

text \<open>
  Each step takes a frame or ends the loop, or moves one task: to a later stage, or to a
  later point of its future.
\<close>

definition pc_rank :: "('aux, 's) pc \<Rightarrow> nat" where
  "pc_rank pc =
     (case pc of Spawned \<Rightarrow> 5 | Running _ _ \<Rightarrow> 4 | Handled _ _ \<Rightarrow> 3 | Removed _ _ \<Rightarrow> 2
      | Responding _ \<Rightarrow> 1 | Finished \<Rightarrow> 0)"

definition pc_future :: "('aux, 's) pc \<Rightarrow> ('s, error + fcall) future" where
  "pc_future pc = (case pc of Running _ fut \<Rightarrow> fut | _ \<Rightarrow> Ready (Inl (No EIO)))"

definition pc_order :: "(('aux, 's) pc \<times> ('aux, 's) pc) set" where
  "pc_order = inv_image (less_than <*lex*> {(p, q). later p q}) (\<lambda>pc. (pc_rank pc, pc_future pc))"

lemma wf_pc_order: "wf pc_order"
  unfolding pc_order_def
  by (intro wf_inv_image wf_lex_prod) (use wfp_later in \<open>simp_all add: wfp_def\<close>)

lemma advance_order:
  "advance E out msg pc sv k = (pc', sv', k') \<Longrightarrow> pc \<noteq> Finished \<Longrightarrow> (pc', pc) \<in> pc_order"
  by (cases pc rule: pc_cases)
    (auto simp: advance_def pc_order_def pc_rank_def pc_future_def
      split: prod.splits sum.splits if_splits)

definition conn_order :: "(('aux, 's) conn \<times> ('aux, 's) conn) set" where
  "conn_order =
     inv_image (less_than <*lex*> mult pc_order)
       (\<lambda>c. (length (conn_input c) + (if conn_result c = None then 1 else 0),
             mset (map snd (conn_tasks c))))"

lemma wf_conn_order: "wf conn_order"
  unfolding conn_order_def by (intro wf_inv_image wf_lex_prod wf_mult wf_pc_order) simp

lemma mult_update:
  assumes "i < length xs" and "(x, xs ! i) \<in> r"
  shows "(mset (xs[i := x]), mset xs) \<in> mult r"
proof -
  let ?rest = "mset xs - {#xs ! i#}"
  have "mset xs = ?rest + {#xs ! i#}" and "mset (xs[i := x]) = ?rest + {#x#}"
    using assms(1) by (simp_all add: mset_update)
  then show ?thesis
    using assms(2) one_step_implies_mult [of "{#xs ! i#}" "{#x#}" r ?rest] by simp
qed

lemma conn_step_order:
  assumes "conn_step E lossy c c'"
  shows "(c', c) \<in> conn_order"
  using assms
proof (cases rule: conn_task_stepE)
  case recv
  then show ?thesis by (cases rule: receive_cases) (auto simp: conn_order_def)
next
  case (task i msg pc pc' sv' k' out)
  then have "(mset ((map snd (conn_tasks c))[i := pc']), mset (map snd (conn_tasks c))) \<in> mult pc_order"
    by (intro mult_update) (auto dest: advance_order)
  with task show ?thesis by (simp add: conn_order_def map_update del: mset_map)
qed

text \<open>What others do to the filesystem between the steps makes no difference.\<close>

lemma conn_order_with_fs [simp]: "(c', with_fs s c) \<in> conn_order \<longleftrightarrow> (c', c) \<in> conn_order"
  by (simp add: conn_order_def)

lemma conn_step_wfp: "wfp (\<lambda>c' c. \<exists>s. conn_step E lossy (with_fs s c) c')"
proof -
  have "{(c', c). \<exists>s. conn_step E lossy (with_fs s c) c'} \<subseteq> conn_order"
    using conn_step_order by fastforce
  then show ?thesis unfolding wfp_def by (auto intro: wf_subset [OF wf_conn_order])
qed

text \<open>Nothing is left to do: the loop has returned and every task has ended.\<close>

definition conn_quiet :: "('aux, 's) conn \<Rightarrow> bool" where
  "conn_quiet c \<longleftrightarrow> conn_result c \<noteq> None \<and> list_all (\<lambda>t. snd t = Finished) (conn_tasks c)"

lemma receive_not_None: "conn_result c = None \<Longrightarrow> receive E c \<noteq> None"
  by (auto simp: receive_def split: list.splits sum.splits)

section \<open>Progress\<close>

text \<open>
  The methods of a connection take one lock at a time. Then a task that holds one can go on,
  and some task can move until all have ended.
\<close>

definition pc_method :: "(('s, error + fcall) future \<Rightarrow> bool) \<Rightarrow> ('aux, 's) pc \<Rightarrow> bool" where
  "pc_method law pc \<longleftrightarrow> (case pc of Running _ fut \<Rightarrow> law fut | _ \<Rightarrow> True)"

definition conn_methods :: "(('s, error + fcall) future \<Rightarrow> bool) \<Rightarrow> ('aux, 's) conn \<Rightarrow> bool" where
  "conn_methods law c \<longleftrightarrow> list_all (\<lambda>t. pc_method law (snd t)) (conn_tasks c)"

abbreviation conn_orderly :: "('aux, 's) conn \<Rightarrow> bool" where
  "conn_orderly \<equiv> conn_methods orderly"

lemma pc_method_simps [simp]:
  "pc_method law (Running nf fut) = law fut" "pc_method law Spawned" "pc_method law (Handled r nf)"
  "pc_method law (Removed r nf)" "pc_method law (Responding r)" "pc_method law Finished"
  by (simp_all add: pc_method_def)

lemma conn_methods_start: "conn_methods law (conn_start frames s)"
  by (simp add: conn_methods_def conn_start_def)

lemma conn_methods_over: "conn_methods law (conn_over E input s)"
  by (simp add: conn_over_def conn_methods_start)

lemma conn_methods_with_fs [simp]: "conn_methods law (with_fs s c) = conn_methods law c"
  by (simp add: conn_methods_def)

lemma conn_methods_task:
  "conn_methods law c \<Longrightarrow> i < length (conn_tasks c) \<Longrightarrow> conn_tasks c ! i = (msg, pc) \<Longrightarrow> pc_method law pc"
  by (auto simp: conn_methods_def list_all_length)

lemma list_all_update: "list_all P xs \<Longrightarrow> P x \<Longrightarrow> list_all P (xs[i := x])"
  using set_update_subset_insert [of xs i x] by (auto simp: list_all_iff)

lemma orderly_wants_nothing:
  "pc_method orderly pc \<Longrightarrow> pc_holds pc \<noteq> [] \<Longrightarrow> reads_table pc \<and> pc_wants pc = None"
  by (cases pc rule: pc_cases) auto

lemma reader_moves:
  "reads_table pc \<Longrightarrow> conn_tasks c ! j = (msg, pc) \<Longrightarrow> lock_free (pc_wants pc) (conn_held c) \<Longrightarrow> can_move c j"
  by (cases pc) (simp_all add: can_move_def)

lemma holder_moves:
  assumes "conn_orderly c" and "conn_held c \<noteq> []"
  shows "\<exists>j < length (conn_tasks c). can_move c j \<and> pc_wants (snd (conn_tasks c ! j)) = None"
proof -
  obtain t where "t \<in> set (conn_tasks c)" "pc_holds (snd t) \<noteq> []"
    using assms(2) by (auto simp: conn_held_def)
  then obtain j msg pc where j: "j < length (conn_tasks c)" "conn_tasks c ! j = (msg, pc)" "pc_holds pc \<noteq> []"
    by (metis in_set_conv_nth prod.collapse)
  with assms(1) have "reads_table pc \<and> pc_wants pc = None"
    by (intro orderly_wants_nothing conn_methods_task)
  with j show ?thesis by (intro exI [of _ j]) (auto intro: reader_moves)
qed

lemma some_task_moves:
  assumes "conn_orderly c" and "i < length (conn_tasks c)" and "snd (conn_tasks c ! i) \<noteq> Finished"
  shows "\<exists>j < length (conn_tasks c). can_move c j"
proof (cases "conn_held c = []")
  case True
  show ?thesis
  proof (cases "table_read c")
    case True
    then obtain j where "j < length (conn_tasks c)" "reads_table (snd (conn_tasks c ! j))"
      by (auto simp: table_read_def list_ex_length)
    with \<open>conn_held c = []\<close> show ?thesis
      by (intro exI [of _ j]) (cases "conn_tasks c ! j", simp add: reader_moves)
  next
    case False
    with assms \<open>conn_held c = []\<close> show ?thesis
      by (intro exI [of _ i]) (auto simp: can_move_def split: prod.splits)
  qed
next
  case False
  then show ?thesis using holder_moves [OF assms(1)] by blast
qed

lemma stuck_iff_quiet:
  assumes "conn_orderly c"
  shows "(\<nexists>c'. conn_step E lossy c c') \<longleftrightarrow> conn_quiet c"
proof
  assume stuck: "\<nexists>c'. conn_step E lossy c c'"
  then have "conn_result c \<noteq> None"
    using receive_not_None by (metis conn_step.receive option.exhaust)
  moreover have "snd (conn_tasks c ! i) = Finished" if "i < length (conn_tasks c)" for i
    using stuck some_task_moves [OF assms that] conn_step.task [of _ c Accepted lossy E] by blast
  ultimately show "conn_quiet c"
    by (simp add: conn_quiet_def list_all_length)
next
  assume quiet: "conn_quiet c"
  show "\<nexists>c'. conn_step E lossy c c'"
  proof
    assume "\<exists>c'. conn_step E lossy c c'"
    then obtain c' where "conn_step E lossy c c'" ..
    then show False
      using quiet
      by (elim conn_stepE)
        (auto simp: conn_quiet_def receive_def list_all_length can_move_def split: prod.splits)
  qed
qed

context method_law begin

lemma advance_methods:
  assumes "advance E out msg pc sv k = (pc', sv', k')" and "env_fs E = fs" and "pc_method law pc"
  shows "pc_method law pc'"
proof -
  have "law fut" if "route (env_fs E) fids nf body = Inr fut" for fids nf body fut
    using method_start that assms(2) by auto
  with assms(1,3) show ?thesis
    by (cases pc rule: pc_cases)
      (auto simp: advance_def intro: method_next split: prod.splits sum.splits if_splits)
qed

lemma conn_step_methods:
  assumes "conn_step E lossy c c'" and "env_fs E = fs" and "conn_methods law c"
  shows "conn_methods law c'"
  using assms(1)
proof (cases rule: conn_task_stepE)
  case recv
  then show ?thesis
    using assms(3) by (cases rule: receive_cases) (auto simp: conn_methods_def)
next
  case (task i msg pc pc' sv' k' out)
  from task(6) assms(2) conn_methods_task [OF assms(3) task(1,2)] have "pc_method law pc'"
    by (rule advance_methods)
  with task(7) assms(3) show ?thesis by (simp add: conn_methods_def list_all_update)
qed

lemma reachable_methods:
  assumes "conn_reachable E lossy c" and "env_fs E = fs"
  shows "conn_methods law c"
  using assms
proof (induction rule: conn_reachable.induct)
  case (start frames s)
  show ?case by (rule conn_methods_start)
next
  case (step c c')
  from step(2) show ?case
    by (cases rule: shared_stepE) (use step conn_step_methods in auto)
qed

end

context lock_discipline begin

lemmas method_orderly = method_start
lemmas conn_step_orderly = conn_step_methods
lemmas reachable_orderly = reachable_methods

end

text \<open>
  C16. A connection cannot run forever and never gets stuck half way: its steps are well
  founded, even when others change the state of the filesystem before each of them, and
  among its own tasks there is no deadlock: if the methods of the filesystem take one lock
  at a time, no step is left exactly when \<^verbatim>\<open>dispatch\<close> has returned and every task has ended,
  whatever the order of the steps and whether or not the sink fails.
\<close>

theorem connection_terminates:
  assumes "lock_discipline (env_fs E)" and "conn_reachable E lossy c"
  shows "wfp (\<lambda>c' c. \<exists>s. conn_step E lossy (with_fs s c) c') \<and>
    ((\<nexists>c'. conn_step E lossy c c') \<longleftrightarrow> conn_quiet c)"
  by (rule conjI [OF conn_step_wfp stuck_iff_quiet [OF lock_discipline.reachable_orderly [OF assms refl]]])

section \<open>A connection for the witnesses\<close>

definition sample_env :: "(unit, unit) env" where
  "sample_env =
     \<lparr>env_fs = sample_fs Ready, env_crates = documented_crates, env_nix = linux_nix, env_buffer = growing,
      env_codec = documented_codec\<rparr>"

definition sample_attach :: Msg where
  "sample_attach = \<lparr>msg_tag = 1, msg_body = TAttach 5 NOFID [] [] 0\<rparr>"

lemma sample_env_simps [simp]:
  "env_fs sample_env = sample_fs Ready" "env_crates sample_env = documented_crates"
  "env_nix sample_env = linux_nix" "env_buffer sample_env = growing"
  "env_codec sample_env = documented_codec"
  by (simp_all add: sample_env_def)

lemma sample_attach_carried: "carried sample_attach"
  by (simp add: carried_def sample_attach_def empty_dir_def valid_String_def)

lemma sample_attach_dispatch:
  "dispatch_once (sample_fs returns) sample_attach \<lparr>srv_fids = Map.empty, srv_fs = ()\<rparr> =
     (Inr (RAttach root_qid), \<lparr>srv_fids = [5 \<mapsto> \<lparr>fid_num = 5, fid_aux = ()\<rparr>], srv_fs = ()\<rparr>)"
  by (simp add: dispatch_once_def make_newfid_def newfid_of_def run_method_def route_def get_newfid_def
      sample_fs_def default_filesystem_def ok_def insert_newfid_def drop_clunked_def sample_attach_def)

lemma run_sample_fs [simp]: "map_filesystem run (sample_fs Ready) = sample_fs returns"
  by (simp add: sample_fs_def map_filesystem_def default_filesystem_def unsupported_def
      default_rversion_def fun_eq_iff)

text \<open>The connection after its one request was received.\<close>

definition sample_conn :: "(unit, unit) conn" where
  "sample_conn =
     \<lparr>conn_input = [], conn_result = None, conn_server = \<lparr>srv_fids = Map.empty, srv_fs = ()\<rparr>,
      conn_tasks = [(sample_attach, Spawned)],
      conn_sink = \<lparr>sink_sent = [], sink_buffer = []\<rparr>\<rparr>"

lemma sample_conn_step: "conn_step sample_env lossy (conn_start [Inr (wire_Msg sample_attach)] ()) sample_conn"
proof -
  have "read_msg documented_crates (wire_Msg sample_attach) = (Inr sample_attach, [])"
    using documented.decode_Msg_wire [OF sample_attach_carried, of "[]"] by (simp add: read_msg_def)
  then show ?thesis
    by (intro conn_step.receive) (simp add: receive_def conn_start_def sample_conn_def)
qed

lemma sample_conn_reachable: "conn_reachable sample_env lossy sample_conn"
  by (rule reachable_own [OF conn_reachable.start sample_conn_step])

lemma sample_env_disciplined: "lock_discipline (env_fs sample_env)"
  by (simp add: sample_fs_disciplined)

theorem connection_terminates_witness: "\<exists>c. conn_step sample_env False sample_conn c"
proof -
  have "\<not> conn_quiet sample_conn" by (simp add: conn_quiet_def sample_conn_def)
  with connection_terminates [OF sample_env_disciplined sample_conn_reachable [of False]] show ?thesis
    by blast
qed

section \<open>Requests\<close>

text \<open>A frame, decoded.\<close>

definition decode_frame :: "crates \<Rightarrow> io_error + bytes \<Rightarrow> io_error + Msg" where
  "decode_frame C fr = (case fr of Inl e \<Rightarrow> Inl e | Inr bytes \<Rightarrow> fst (read_msg C bytes))"

definition requests :: "('aux, 's) conn \<Rightarrow> Msg list" where
  "requests c = map fst (conn_tasks c)"

text \<open>How the frames split into the requests so far, a bad frame and those not looked at.\<close>

definition frames_split :: "crates \<Rightarrow> (io_error + bytes) list \<Rightarrow> ('aux, 's) conn \<Rightarrow> bool" where
  "frames_split C frames c \<longleftrightarrow>
     (case conn_result c of
        None \<Rightarrow>
          map (decode_frame C) frames = map Inr (requests c) @ map (decode_frame C) (conn_input c)
      | Some (Inr _) \<Rightarrow> map (decode_frame C) frames = map Inr (requests c)
      | Some (Inl e) \<Rightarrow> \<exists>e'. e = error_from_io e' \<and> map (decode_frame C) frames =
          map Inr (requests c) @ Inl e' # map (decode_frame C) (conn_input c))"

lemma requests_update [simp]:
  "i < length (conn_tasks c) \<Longrightarrow> conn_tasks c ! i = (msg, pc) \<Longrightarrow>
     map fst ((conn_tasks c)[i := (msg, pc')]) = map fst (conn_tasks c)"
  by (metis fst_conv list_update_id map_update)

lemma receive_frames_split:
  "receive E c = Some c' \<Longrightarrow> frames_split (env_crates E) frames c \<Longrightarrow>
     frames_split (env_crates E) frames c'"
  by (auto simp: receive_def frames_split_def requests_def decode_frame_def
      split: option.splits list.splits sum.splits)

lemma requests_with_fs [simp]: "requests (with_fs s c) = requests c"
  by (simp add: requests_def)

lemma frames_split_with_fs [simp]: "frames_split C frames (with_fs s c) = frames_split C frames c"
  by (simp add: frames_split_def cong: option.case_cong sum.case_cong)

lemma conn_step_frames_split:
  assumes "conn_step E lossy c c'" and "frames_split (env_crates E) frames c"
  shows "frames_split (env_crates E) frames c'"
  using assms(1)
proof (cases rule: conn_task_stepE)
  case recv
  then show ?thesis using assms(2) by (rule receive_frames_split)
next
  case (task i msg pc pc' sv' k' out)
  with assms(2) show ?thesis
    by (simp add: frames_split_def requests_def split: option.splits sum.splits)
qed

lemma shared_frames_split:
  assumes "(shared_step E lossy others)\<^sup>*\<^sup>* (conn_start frames s) c"
  shows "frames_split (env_crates E) frames c"
  using assms
proof (induction rule: rtranclp_induct)
  case base
  show ?case by (simp add: frames_split_def conn_start_def requests_def)
next
  case (step c c')
  from step(2,3) show ?case by (cases rule: shared_stepE) (auto intro: conn_step_frames_split)
qed

text \<open>
  C21. The tasks of a connection are those of the frames, in order, each decoded once. The
  first frame that is an I/O error or does not decode ends the connection with that error
  and no frame behind it is read, but the requests before it keep their tasks; otherwise
  \<^verbatim>\<open>dispatch\<close> returns success after the last frame.
\<close>

theorem requests_are_the_frames:
  assumes "(shared_step E lossy others)\<^sup>*\<^sup>* (conn_start frames s) c"
  shows "frames_split (env_crates E) frames c"
  using assms by (rule shared_frames_split)

theorem requests_are_the_frames_witness:
  "frames_split documented_crates [Inr (wire_Msg sample_attach)] sample_conn"
  using requests_are_the_frames [of sample_env False "\<lambda>_ _. True" "[Inr (wire_Msg sample_attach)]" "()" sample_conn]
    shared_step.own [OF sample_conn_step [of False]] by auto

end
