(* ===== verification/Interleave.thy ===== *)
theory Interleave
  imports Connection
begin

text \<open>
  What the interleaving of the tasks can and cannot do: a task that runs alone is
  \<^verbatim>\<open>dispatch_once\<close>, the table stays as it is while methods run and holds only fids of
  requests, every request is answered once, and the promises of a filesystem hold in every
  reachable state.
\<close>

section \<open>One task without the others\<close>

lemma run_task_advance:
  assumes "i < length (conn_tasks c)" and "conn_tasks c ! i = (msg, pc)" and "pc \<noteq> Finished"
    and "writes_table msg pc \<longrightarrow> \<not> table_read c" and "lock_free (pc_wants pc) (conn_held c)"
    and "advance E Accepted msg pc (conn_server c) (conn_sink c) = (pc', sv', k')"
  shows "conn_step E lossy c
    (c\<lparr>conn_tasks := (conn_tasks c)[i := (msg, pc')], conn_server := sv', conn_sink := k'\<rparr>)"
proof -
  have "run_task E Accepted i c =
      c\<lparr>conn_tasks := (conn_tasks c)[i := (msg, pc')], conn_server := sv', conn_sink := k'\<rparr>"
    using assms(2,6) by (simp add: run_task_def)
  then show ?thesis
    using conn_step.task [of i c Accepted lossy E] assms(1-5) by (simp add: can_move_def)
qed

lemma in_list_update: "y \<in> set (xs[i := x]) \<Longrightarrow> y = x \<or> y \<in> set xs"
  using set_update_subset_insert [of xs i x] by auto

lemma table_read_update:
  "\<not> table_read c \<Longrightarrow> conn_tasks c' = (conn_tasks c)[i := (msg, pc)] \<Longrightarrow> \<not> reads_table pc \<Longrightarrow>
     \<not> table_read c'"
  by (auto simp: table_read_def list_ex_iff dest: in_list_update)

text \<open>The state with task \<open>i\<close> at \<open>pc\<close>, on a server.\<close>

definition task_at ::
  "('aux, 's) conn \<Rightarrow> nat \<Rightarrow> Msg \<Rightarrow> ('aux, 's) pc \<Rightarrow> ('aux, 's) server \<Rightarrow> ('aux, 's) conn" where
  "task_at c i msg pc sv = c\<lparr>conn_tasks := (conn_tasks c)[i := (msg, pc)], conn_server := sv\<rparr>"

lemma task_at_held:
  assumes "i < length (conn_tasks c)" and "\<not> table_read c"
  shows "set (conn_held (task_at c i msg pc sv)) \<subseteq> set (pc_holds pc)"
proof -
  have "pc_holds (snd t) = []" if "t \<in> set (conn_tasks c)" for t
    using assms(2) only_readers_hold that by (auto simp: table_read_def list_ex_iff)
  then show ?thesis
    by (auto simp: set_conn_held task_at_def dest!: in_list_update)
qed

lemma task_at_step:
  assumes "i < length (conn_tasks c)" and "pc \<noteq> Finished"
    and "pc_wants pc = None \<or> pc_holds pc = [] \<and> \<not> table_read c"
    and "writes_table msg pc \<Longrightarrow> \<not> table_read c"
    and "advance E Accepted msg pc sv (conn_sink c) = (pc', sv', conn_sink c)"
  shows "conn_step E lossy (task_at c i msg pc sv) (task_at c i msg pc' sv')"
proof -
  have "writes_table msg pc \<longrightarrow> \<not> table_read (task_at c i msg pc sv)"
    using assms(4) table_read_update [of c "task_at c i msg pc sv" i msg pc]
    by (cases pc) (auto simp: task_at_def)
  moreover have "lock_free (pc_wants pc) (conn_held (task_at c i msg pc sv))"
    using assms(3) task_at_held [OF assms(1), of msg pc sv] by auto
  ultimately have "conn_step E lossy (task_at c i msg pc sv)
      ((task_at c i msg pc sv)\<lparr>conn_tasks := (conn_tasks (task_at c i msg pc sv))[i := (msg, pc')],
         conn_server := sv', conn_sink := conn_sink c\<rparr>)"
    using assms(1,2,5) by (intro run_task_advance [where pc = pc]) (simp_all add: task_at_def)
  then show ?thesis by (simp add: task_at_def)
qed

text \<open>A method run to its end.\<close>

lemma undisturbed_future:
  assumes "i < length (conn_tasks c)" and "\<not> table_read c"
  shows "orderly fut \<Longrightarrow> run fut (srv_fs sv) = (x, s') \<Longrightarrow>
    (conn_step E lossy)\<^sup>*\<^sup>* (task_at c i msg (Running nf fut) sv)
      (task_at c i msg (Running nf (Ready x)) (sv\<lparr>srv_fs := s'\<rparr>))"
proof (induction fut arbitrary: sv)
  case (Ready y)
  then show ?case by (cases sv) (auto simp: returns_def)
next
  case (Await w h upd nxt)
  let ?sv = "sv\<lparr>srv_fs := upd (srv_fs sv)\<rparr>"
  have "conn_step E lossy (task_at c i msg (Running nf (Await w h upd nxt)) sv)
      (task_at c i msg (Running nf (nxt (srv_fs sv))) ?sv)"
    using Await.prems(1) assms by (intro task_at_step) auto
  moreover have "(conn_step E lossy)\<^sup>*\<^sup>* (task_at c i msg (Running nf (nxt (srv_fs sv))) ?sv)
      (task_at c i msg (Running nf (Ready x)) (?sv\<lparr>srv_fs := s'\<rparr>))"
    using Await.prems by (intro Await.IH rangeI) simp_all
  ultimately show ?case by (simp add: converse_rtranclp_into_rtranclp)
qed

lemma undisturbed_task:
  assumes "lock_discipline (env_fs E)"
    and "i < length (conn_tasks c)" and "conn_tasks c ! i = (msg, Spawned)" and "\<not> table_read c"
    and "dispatch_once (map_filesystem run (env_fs E)) msg (conn_server c) = (res, sv')"
  shows "(conn_step E lossy)\<^sup>*\<^sup>* c (task_at c i msg (Responding (response_of (env_nix E) res)) sv')"
proof -
  let ?b = "msg_body msg" and ?sv = "conn_server c" and ?at = "task_at c i msg"
  note steps = task_at_step [OF assms(2)]
  have c: "c = ?at Spawned ?sv" using assms(3) by (simp add: task_at_def flip: assms(3))
  obtain nf s1 where mk: "make_newfid (env_fs E) ?b (srv_fs ?sv) = (nf, s1)" by fastforce
  let ?sv1 = "?sv\<lparr>srv_fs := s1\<rparr>"
  show ?thesis
  proof (cases "route (env_fs E) (srv_fids ?sv) nf ?b")
    case (Inl e)
    then have "res = Inl e" "sv' = ?sv1"
      using assms(5) mk by (auto simp: dispatch_once_def run_method_def route_map fail_def)
    then have "conn_step E lossy (?at Spawned ?sv) (?at (Responding (response_of (env_nix E) res)) sv')"
      using Inl mk by (intro steps) (simp_all add: advance_def)
    with c show ?thesis by auto
  next
    case (Inr fut)
    have tidy: "orderly fut" using lock_discipline.method_orderly [OF assms(1) Inr] .
    obtain r s2 where run: "run fut s1 = (r, s2)" by fastforce
    let ?sv2 = "?sv\<lparr>srv_fs := s2\<rparr>"
    have "conn_step E lossy (?at Spawned ?sv) (?at (Running nf fut) ?sv1)"
      using Inr mk by (intro steps) (simp_all add: advance_def)
    moreover have "(conn_step E lossy)\<^sup>*\<^sup>* (?at (Running nf fut) ?sv1) (?at (Running nf (Ready r)) ?sv2)"
      using undisturbed_future [OF assms(2,4), of fut ?sv1 r s2] run tidy by simp
    ultimately have ready: "(conn_step E lossy)\<^sup>*\<^sup>* c (?at (Running nf (Ready r)) ?sv2)"
      using c by auto
    show ?thesis
    proof (cases r)
      case (Inl e)
      then have "res = Inl e" "sv' = ?sv2"
        using assms(5) mk Inr run by (auto simp: dispatch_once_def run_method_def route_map)
      with Inl have "conn_step E lossy (?at (Running nf (Ready r)) ?sv2)
          (?at (Responding (response_of (env_nix E) res)) sv')"
        by (intro steps) simp_all
      with ready show ?thesis by simp
    next
      case (Inr resp)
      let ?sv3 = "?sv\<lparr>srv_fs := s2, srv_fids := drop_clunked ?b (srv_fids ?sv)\<rparr>"
      have sv': "sv' = ?sv3\<lparr>srv_fids := insert_newfid nf (srv_fids ?sv3)\<rparr>" and res: "res = Inr resp"
        using assms(5) mk \<open>route _ _ _ _ = Inr fut\<close> run Inr
        by (auto simp: dispatch_once_def run_method_def route_map)
      have "conn_step E lossy (?at (Running nf (Ready r)) ?sv2) (?at (Handled resp nf) ?sv2)"
        using Inr by (intro steps) simp_all
      moreover have "conn_step E lossy (?at (Handled resp nf) ?sv2) (?at (Removed resp nf) ?sv3)"
        using assms(4) by (intro steps) simp_all
      moreover have "conn_step E lossy (?at (Removed resp nf) ?sv3) (?at (Responding resp) sv')"
        using assms(4) by (intro steps) (simp_all add: sv')
      ultimately show ?thesis
        using ready by (simp add: res response_of_def)
    qed
  qed
qed

text \<open>
  C4. The moves of a task, run with no other task in between, never wait for a lock and are
  the function \<^verbatim>\<open>dispatch_once\<close> with each method run to its end: the same response is about to be sent and
  the server is left in the same state. Interleavings differ only between the moves.
\<close>

theorem undisturbed_task_is_dispatch_once:
  assumes "lock_discipline (env_fs E)"
    and "i < length (conn_tasks c)" and "conn_tasks c ! i = (msg, Spawned)" and "\<not> table_read c"
    and "dispatch_once (map_filesystem run (env_fs E)) msg (conn_server c) = (res, sv')"
  shows "(conn_step E lossy)\<^sup>*\<^sup>* c
    (c\<lparr>conn_tasks := (conn_tasks c)[i := (msg, Responding (response_of (env_nix E) res))],
       conn_server := sv'\<rparr>)"
  using undisturbed_task [OF assms] by (simp add: task_at_def)

lemma sample_conn_unread: "\<not> table_read sample_conn"
  by (simp add: table_read_def sample_conn_def)

lemma sample_conn_handled:
  "(conn_step sample_env False)\<^sup>*\<^sup>* sample_conn
     (sample_conn\<lparr>conn_tasks := [(sample_attach, Responding (RAttach root_qid))],
        conn_server := \<lparr>srv_fids = [5 \<mapsto> \<lparr>fid_num = 5, fid_aux = ()\<rparr>], srv_fs = ()\<rparr>\<rparr>)"
  using undisturbed_task [OF sample_env_disciplined _ _ sample_conn_unread, of 0 sample_attach _ _ False]
    sample_attach_dispatch by (simp add: sample_conn_def response_of_def task_at_def)

theorem undisturbed_task_is_dispatch_once_witness:
  "(conn_step sample_env False)\<^sup>*\<^sup>* sample_conn
     (sample_conn\<lparr>conn_tasks := [(sample_attach, Responding (RAttach root_qid))],
        conn_server := \<lparr>srv_fids = [5 \<mapsto> \<lparr>fid_num = 5, fid_aux = ()\<rparr>], srv_fs = ()\<rparr>\<rparr>)"
  using undisturbed_task_is_dispatch_once [OF sample_env_disciplined _ _ sample_conn_unread, of 0 sample_attach _ _ False]
    sample_attach_dispatch by (simp add: sample_conn_def response_of_def)

section \<open>The fid table under any interleaving\<close>

text \<open>The new fid a task has still to insert.\<close>

definition pc_newfid :: "('aux, 's) pc \<Rightarrow> 'aux FId option" where
  "pc_newfid pc =
     (case pc of Running nf _ \<Rightarrow> nf | Handled _ nf \<Rightarrow> nf | Removed _ nf \<Rightarrow> nf | _ \<Rightarrow> None)"

lemma pc_newfid_simps [simp]:
  "pc_newfid Spawned = None" "pc_newfid (Running nf fut) = nf" "pc_newfid (Handled r nf) = nf"
  "pc_newfid (Removed r nf) = nf" "pc_newfid (Responding r) = None" "pc_newfid Finished = None"
  by (simp_all add: pc_newfid_def)

lemma advance_newfid:
  "advance E out msg pc sv k = (pc', sv', k') \<Longrightarrow> pc_newfid pc' = Some nf \<Longrightarrow>
     pc_newfid pc = Some nf \<or> newfid_of (msg_body msg) = Some (fid_num nf)"
  using make_newfid_fid [of "env_fs E" "msg_body msg" "srv_fs sv"]
  by (cases pc rule: pc_cases)
    (fastforce simp: advance_def split: prod.splits sum.splits if_splits)+

lemma advance_table:
  "advance E out msg pc sv k = (pc', sv', k') \<Longrightarrow> srv_fids sv' x = Some f \<Longrightarrow>
     srv_fids sv x = Some f \<or> pc_newfid pc = Some f \<and> fid_num f = x"
  by (cases pc rule: pc_cases)
    (auto simp: advance_def drop_clunked_apply insert_newfid_apply
      split: prod.splits sum.splits if_splits option.splits)

lemma advance_writes:
  "advance E out msg pc sv k = (pc', sv', k') \<Longrightarrow> \<not> writes_table msg pc \<Longrightarrow>
     srv_fids sv' = srv_fids sv"
  by (cases pc rule: pc_cases)
    (auto simp: advance_def writes_table_def drop_clunked_def insert_newfid_def
      split: prod.splits sum.splits if_splits fcall.splits)

lemma table_unchanged:
  assumes "conn_step E lossy c c'" and "table_read c"
  shows "srv_fids (conn_server c') = srv_fids (conn_server c)"
  using assms(1)
proof (cases rule: conn_task_stepE)
  case recv
  then show ?thesis by (cases rule: receive_cases) simp_all
next
  case (task i msg pc pc' sv' k' out)
  with assms(2) show ?thesis by (simp add: advance_writes)
qed

definition table_origin :: "('aux, 's) conn \<Rightarrow> bool" where
  "table_origin c \<longleftrightarrow>
     (\<forall>x f. srv_fids (conn_server c) x = Some f \<longrightarrow>
        fid_num f = x \<and> (\<exists>m \<in> set (requests c). newfid_of (msg_body m) = Some x)) \<and>
     (\<forall>msg pc nf. (msg, pc) \<in> set (conn_tasks c) \<longrightarrow> pc_newfid pc = Some nf \<longrightarrow>
        newfid_of (msg_body msg) = Some (fid_num nf))"

lemma table_origin_with_fs [simp]: "table_origin (with_fs s c) = table_origin c"
  by (simp add: table_origin_def)

lemma conn_step_table_origin:
  assumes "conn_step E lossy c c'" and "table_origin c"
  shows "table_origin c'"
  using assms(1)
proof (cases rule: conn_task_stepE)
  case recv
  then show ?thesis
    using assms(2) by (cases rule: receive_cases) (fastforce simp: table_origin_def requests_def)+
next
  case (task i msg pc pc' sv' k' out)
  have in_tasks: "(msg, pc) \<in> set (conn_tasks c)" using task(1,2) by (metis nth_mem)
  have msg_in: "msg \<in> set (requests c)" using in_tasks by (force simp: requests_def)
  have pending: "newfid_of (msg_body msg) = Some (fid_num nf)" if "pc_newfid pc = Some nf" for nf
    using assms(2) in_tasks that by (auto simp: table_origin_def)
  have "fid_num f = x \<and> (\<exists>m \<in> set (requests c). newfid_of (msg_body m) = Some x)"
    if "srv_fids sv' x = Some f" for x f
    using advance_table [OF task(6) that] assms(2) pending [of f] msg_in
    by (auto simp: table_origin_def)
  moreover have "newfid_of (msg_body m) = Some (fid_num nf)"
    if "(m, q) \<in> set ((conn_tasks c)[i := (msg, pc')])" "pc_newfid q = Some nf" for m q nf
    using in_list_update [OF that(1)] that(2) advance_newfid [OF task(6)] pending assms(2)
    by (auto simp: table_origin_def)
  ultimately show ?thesis
    using task(1,2,7) by (simp add: table_origin_def requests_def)
qed

lemma reachable_table_origin: "conn_reachable E lossy c \<Longrightarrow> table_origin c"
proof (induction rule: conn_reachable.induct)
  case (start frames s)
  show ?case by (simp add: table_origin_def conn_start_def)
next
  case (step c c')
  from step(2,3) show ?case
    by (cases rule: shared_stepE) (auto intro: conn_step_table_origin)
qed

text \<open>
  C22. However the tasks interleave, and whatever other connections do to the filesystem, a
  fid of the table is filed under its own number, and that number is the new fid of a request that was received.
\<close>

theorem fids_come_from_requests:
  assumes "conn_reachable E lossy c" and "srv_fids (conn_server c) x = Some f"
  shows "fid_num f = x \<and> x \<in> {y. \<exists>m. m \<in> set (requests c) \<and> newfid_of (msg_body m) = Some y}"
  using reachable_table_origin [OF assms(1)] assms(2) by (auto simp: table_origin_def)

theorem fids_come_from_requests_witness:
  "\<exists>c :: (unit, unit) conn. conn_reachable sample_env False c \<and> 5 \<in> dom (srv_fids (conn_server c)) \<and>
     5 \<in> {y. \<exists>m. m \<in> set (requests c) \<and> newfid_of (msg_body m) = Some y}"
proof -
  let ?c = "sample_conn\<lparr>conn_tasks := [(sample_attach, Responding (RAttach root_qid))],
     conn_server := \<lparr>srv_fids = [5 \<mapsto> \<lparr>fid_num = 5, fid_aux = ()\<rparr>], srv_fs = ()\<rparr>\<rparr>"
  have r: "conn_reachable sample_env False ?c"
    by (rule rtranclp_reachable [OF sample_conn_handled sample_conn_reachable])
  then show ?thesis
    using fids_come_from_requests [OF r, of 5] by (intro exI [of _ ?c]) simp
qed

text \<open>The moves that change the table.\<close>

lemma advance_rebinds:
  assumes "advance E out msg pc sv k = (pc', sv', k')" and "srv_fids sv' x \<noteq> srv_fids sv x"
  shows "msg_body msg = TClunk x \<and> (\<exists>r nf. pc = Handled r nf) \<and> srv_fids sv' x = None \<or>
    (\<exists>r nf. pc = Removed r (Some nf) \<and> fid_num nf = x \<and> srv_fids sv' x = Some nf)"
  using assms
  by (cases pc rule: pc_cases)
    (auto simp: advance_def drop_clunked_apply insert_newfid_apply
      split: prod.splits sum.splits if_splits option.splits)

text \<open>
  C24. A fid persists until it is clunked, however the tasks interleave: no step of a
  connection changes what a number is bound to but the one that ends a successful
  \<^verbatim>\<open>TClunk\<close> of it, which leaves it unbound, or the one that ends a successful request whose
  new fid it is, which binds it to the fid that request made.
\<close>

theorem fids_persist_until_clunked:
  assumes "conn_reachable E lossy c" and "conn_step E lossy c c'"
    and "srv_fids (conn_server c') x \<noteq> srv_fids (conn_server c) x"
  shows "\<exists>i msg pc. i < length (conn_tasks c) \<and> conn_tasks c ! i = (msg, pc) \<and>
    (msg_body msg = TClunk x \<and> (\<exists>r nf. pc = Handled r nf) \<and> srv_fids (conn_server c') x = None \<or>
     newfid_of (msg_body msg) = Some x \<and>
       (\<exists>r nf. pc = Removed r (Some nf) \<and> srv_fids (conn_server c') x = Some nf))"
  using assms(2)
proof (cases rule: conn_task_stepE)
  case recv
  then show ?thesis using assms(3) by (cases rule: receive_cases) simp_all
next
  case (task i msg pc pc' sv' k' out)
  have "(msg, pc) \<in> set (conn_tasks c)" using task(1,2) by (metis nth_mem)
  then have "newfid_of (msg_body msg) = Some (fid_num nf)" if "pc = Removed r (Some nf)" for r nf
    using reachable_table_origin [OF assms(1)] that by (auto simp: table_origin_def)
  with advance_rebinds [OF task(6), of x] task(1,2,7) assms(3) show ?thesis by auto
qed

theorem fids_persist_until_clunked_witness:
  "\<exists>(c :: (unit, unit) conn) c'. conn_reachable sample_env False c \<and> conn_step sample_env False c c' \<and>
     srv_fids (conn_server c) 5 = None \<and> srv_fids (conn_server c') 5 \<noteq> None \<and>
     (\<exists>i msg pc. i < length (conn_tasks c) \<and> conn_tasks c ! i = (msg, pc) \<and> newfid_of (msg_body msg) = Some 5)"
proof -
  have "\<exists>c c'. conn_reachable sample_env False c \<and> conn_step sample_env False c c' \<and>
      srv_fids (conn_server c) 5 = None \<and> srv_fids (conn_server c') 5 \<noteq> None"
    if "(conn_step sample_env False)\<^sup>*\<^sup>* c0 d" "conn_reachable sample_env False c0"
      "srv_fids (conn_server c0) 5 = None" "srv_fids (conn_server d) 5 \<noteq> None" for c0 d :: "(unit, unit) conn"
    using that
  proof (induction rule: rtranclp_induct)
    case (step y z)
    show ?case
    proof (cases "srv_fids (conn_server y) 5 = None")
      case True
      with step rtranclp_reachable [OF step(1)] show ?thesis by blast
    qed (use step in blast)
  qed simp
  from this [OF sample_conn_handled sample_conn_reachable] obtain c c' where
    c: "conn_reachable sample_env False c" "conn_step sample_env False c c'"
    "srv_fids (conn_server c) 5 = None" "srv_fids (conn_server c') 5 \<noteq> None"
    by (auto simp: sample_conn_def)
  from fids_persist_until_clunked [OF c(1,2), of 5] c(3,4) have
    "\<exists>i msg pc. i < length (conn_tasks c) \<and> conn_tasks c ! i = (msg, pc) \<and> newfid_of (msg_body msg) = Some 5"
    by auto
  with c show ?thesis by blast
qed

section \<open>Running methods and the table\<close>

text \<open>
  Every running method was called on the fids the table holds now: the future it is at
  comes after the one that routing gives.
\<close>

definition routed :: "('aux, 's) env \<Rightarrow> 'aux fid_table \<Rightarrow> Msg \<Rightarrow> ('aux, 's) pc \<Rightarrow> bool" where
  "routed E fids msg pc \<longleftrightarrow>
     (case pc of
        Running nf fut \<Rightarrow>
          map_option fid_num nf = newfid_of (msg_body msg) \<and>
          (\<exists>fut0. route (env_fs E) fids nf (msg_body msg) = Inr fut0 \<and> later\<^sup>*\<^sup>* fut fut0)
      | _ \<Rightarrow> True)"

lemma routed_simps [simp]:
  "routed E fids msg Spawned" "routed E fids msg (Handled r nf)" "routed E fids msg (Removed r nf)"
  "routed E fids msg (Responding r)" "routed E fids msg Finished"
  by (simp_all add: routed_def)

lemma advance_routed:
  assumes "advance E out msg pc sv k = (pc', sv', k')" and "routed E (srv_fids sv) msg pc"
  shows "routed E (srv_fids sv') msg pc'"
proof (cases pc rule: pc_cases)
  case Spawned
  with assms(1) show ?thesis
    by (auto simp: advance_def routed_def make_newfid_fid split: prod.splits sum.splits)
next
  case (Await nf w h upd nxt)
  have "later\<^sup>*\<^sup>* (nxt s) p" if "later\<^sup>*\<^sup>* (Await w h upd nxt) p" for s p
    using later.later that by (rule converse_rtranclp_into_rtranclp)
  with Await assms show ?thesis by (auto simp: routed_def)
qed (use assms in \<open>auto simp: advance_def split: prod.splits sum.splits if_splits\<close>)

definition conn_routed :: "('aux, 's) env \<Rightarrow> ('aux, 's) conn \<Rightarrow> bool" where
  "conn_routed E c \<longleftrightarrow>
     (\<forall>t \<in> set (conn_tasks c). routed E (srv_fids (conn_server c)) (fst t) (snd t))"

lemma conn_routed_with_fs [simp]: "conn_routed E (with_fs s c) = conn_routed E c"
  by (simp add: conn_routed_def)

lemma not_reading_routed: "\<not> reads_table pc \<Longrightarrow> routed E fids msg pc"
  by (cases pc) (simp_all add: reads_table_def)

lemma conn_step_routed:
  assumes "conn_step E lossy c c'" and "conn_routed E c"
  shows "conn_routed E c'"
  using assms(1)
proof (cases rule: conn_task_stepE)
  case recv
  then show ?thesis using assms(2) by (cases rule: receive_cases) (auto simp: conn_routed_def)
next
  case (task i msg pc pc' sv' k' out)
  have "(msg, pc) \<in> set (conn_tasks c)" using task(1,2) by (metis nth_mem)
  then have "routed E (srv_fids (conn_server c)) msg pc"
    using assms(2) by (auto simp: conn_routed_def)
  note mine = advance_routed [OF task(6) this]
  have "routed E (srv_fids sv') (fst t) (snd t)" if "t \<in> set (conn_tasks c)" for t
  proof (cases "reads_table (snd t)")
    case True
    then have "table_read c" using that by (auto simp: table_read_def list_ex_iff)
    then have "srv_fids sv' = srv_fids (conn_server c)"
      using task(5) advance_writes [OF task(6)] by blast
    then show ?thesis using assms(2) that by (simp add: conn_routed_def)
  qed (simp add: not_reading_routed)
  with mine show ?thesis
    using task(7) by (auto simp: conn_routed_def dest: in_list_update)
qed

lemma reachable_routed: "conn_reachable E lossy c \<Longrightarrow> conn_routed E c"
proof (induction rule: conn_reachable.induct)
  case (start frames s)
  show ?case by (simp add: conn_routed_def conn_start_def)
next
  case (step c c')
  from step(2,3) show ?case
    by (cases rule: shared_stepE) (auto intro: conn_step_routed)
qed

text \<open>
  C23. The lock of the table does its work: while a method runs, at whatever point and
  whatever the other tasks and other connections do, every fid its request names is still
  in the table, bound to the data the method was called with. No \<^verbatim>\<open>TClunk\<close> or new fid gets in between.
\<close>

theorem running_methods_keep_their_fids:
  assumes "conn_reachable E lossy c" and "(msg, Running nf fut) \<in> set (conn_tasks c)"
  shows "looked_up (msg_body msg) \<subseteq> dom (srv_fids (conn_server c)) \<and>
    (\<exists>fut0. route (env_fs E) (srv_fids (conn_server c)) nf (msg_body msg) = Inr fut0 \<and> later\<^sup>*\<^sup>* fut fut0)"
proof -
  have "routed E (srv_fids (conn_server c)) msg (Running nf fut)"
    using reachable_routed [OF assms(1)] assms(2) by (auto simp: conn_routed_def)
  then obtain fut0 where nf: "map_option fid_num nf = newfid_of (msg_body msg)"
    and fut0: "route (env_fs E) (srv_fids (conn_server c)) nf (msg_body msg) = Inr fut0" "later\<^sup>*\<^sup>* fut fut0"
    by (auto simp: routed_def)
  have "looked_up (msg_body msg) \<subseteq> dom (srv_fids (conn_server c))"
  proof (rule ccontr)
    assume missing: "\<not> ?thesis"
    have "is_r (msg_type_of (msg_body msg)) \<or> is_t (msg_type_of (msg_body msg))" by (simp add: is_t_def)
    with missing obtain e where "route (env_fs E) (srv_fids (conn_server c)) nf (msg_body msg) = Inl e"
      using route_refused [OF nf] by blast
    with fut0(1) show False by simp
  qed
  with fut0 show ?thesis by blast
qed

theorem running_methods_keep_their_fids_witness:
  "\<exists>c :: (unit, unit) conn. (sample_attach, Running (Some \<lparr>fid_num = 5, fid_aux = ()\<rparr>) (Ready (Inr (RAttach root_qid))))
       \<in> set (conn_tasks c) \<and> conn_reachable sample_env False c \<and>
     looked_up (msg_body sample_attach) \<subseteq> dom (srv_fids (conn_server c))"
proof -
  let ?pc = "Running (Some \<lparr>fid_num = 5, fid_aux = ()\<rparr>) (Ready (Inr (RAttach root_qid)))"
  let ?c = "task_at sample_conn 0 sample_attach ?pc (conn_server sample_conn)"
  have "conn_step sample_env False
      (task_at sample_conn 0 sample_attach Spawned (conn_server sample_conn)) ?c"
    by (rule task_at_step)
      (simp_all add: sample_conn_def advance_def make_newfid_def newfid_of_def route_def get_newfid_def
        sample_attach_def sample_fs_def default_filesystem_def)
  then have "conn_step sample_env False sample_conn ?c"
    by (simp add: task_at_def sample_conn_def)
  then have r: "conn_reachable sample_env False ?c"
    by (rule reachable_own [OF sample_conn_reachable])
  have t: "(sample_attach, ?pc) \<in> set (conn_tasks ?c)" by (simp add: task_at_def sample_conn_def)
  show ?thesis
    using running_methods_keep_their_fids [OF r t] r t by blast
qed

section \<open>Replies\<close>

text \<open>
  A request the filesystem answers with something that can be sent, whatever happens between
  the pieces of its method.
\<close>

definition can_send :: "error + fcall \<Rightarrow> bool" where
  "can_send r \<longleftrightarrow> (case r of Inl _ \<Rightarrow> True | Inr response \<Rightarrow> sendable response)"

definition answerable :: "('aux, 's) concurrent_fs \<Rightarrow> fcall \<Rightarrow> bool" where
  "answerable fs body \<longleftrightarrow>
     (\<forall>fids newfid fut. route fs fids newfid body = Inr fut \<longrightarrow> yields can_send fut)"

lemma answerableD:
  "answerable fs body \<Longrightarrow> route fs fids newfid body = Inr fut \<Longrightarrow> yields can_send fut"
  unfolding answerable_def by blast

lemma sendable_error [simp]: "sendable (response_of N (Inl e))"
  by (simp add: response_of_def sendable_def max_frame_length_def)

text \<open>Everything a task can still answer can be sent.\<close>

definition pc_sendable :: "('aux, 's) concurrent_fs \<Rightarrow> Msg \<Rightarrow> ('aux, 's) pc \<Rightarrow> bool" where
  "pc_sendable fs msg pc \<longleftrightarrow>
     (case pc of
        Spawned \<Rightarrow> answerable fs (msg_body msg)
      | Running _ fut \<Rightarrow> yields can_send fut
      | Handled r _ \<Rightarrow> sendable r
      | Removed r _ \<Rightarrow> sendable r
      | Responding r \<Rightarrow> sendable r
      | Finished \<Rightarrow> True)"

lemma pc_sendable_simps [simp]:
  "pc_sendable fs msg Spawned = answerable fs (msg_body msg)"
  "pc_sendable fs msg (Running nf fut) = yields can_send fut"
  "pc_sendable fs msg (Handled r nf) = sendable r" "pc_sendable fs msg (Removed r nf) = sendable r"
  "pc_sendable fs msg (Responding r) = sendable r" "pc_sendable fs msg Finished"
  by (simp_all add: pc_sendable_def)

lemma advance_sendable:
  "advance E out msg pc sv k = (pc', sv', k') \<Longrightarrow> pc_sendable (env_fs E) msg pc \<Longrightarrow>
     pc_sendable (env_fs E) msg pc'"
  by (cases pc rule: pc_cases)
    (auto simp: advance_def can_send_def dest: answerableD split: prod.splits sum.splits if_splits)

text \<open>It holds of a connection once every request of its input is answerable.\<close>

definition all_answerable :: "('aux, 's) env \<Rightarrow> ('aux, 's) conn \<Rightarrow> bool" where
  "all_answerable E c \<longleftrightarrow>
     (\<forall>fr \<in> set (conn_input c). \<forall>m. decode_frame (env_crates E) fr = Inr m \<longrightarrow>
        answerable (env_fs E) (msg_body m)) \<and>
     (\<forall>t \<in> set (conn_tasks c). pc_sendable (env_fs E) (fst t) (snd t))"

lemma conn_step_answerable:
  assumes "conn_step E lossy c c'" and "all_answerable E c"
  shows "all_answerable E c'"
  using assms(1)
proof (cases rule: conn_task_stepE)
  case recv
  then show ?thesis
    using assms(2)
    by (auto simp: receive_def all_answerable_def decode_frame_def
        split: option.splits list.splits sum.splits)
next
  case (task i msg pc pc' sv' k' out)
  have "(msg, pc) \<in> set (conn_tasks c)" using task(1,2) by (metis nth_mem)
  then have "pc_sendable (env_fs E) msg pc'"
    using assms(2) advance_sendable [OF task(6)] by (auto simp: all_answerable_def)
  then show ?thesis
    using assms(2) task(7) by (auto simp: all_answerable_def dest: in_list_update)
qed

lemma shared_answerable:
  assumes "(shared_step E lossy others)\<^sup>*\<^sup>* c c'" and "all_answerable E c"
  shows "all_answerable E c'"
  using assms(1)
proof (induction rule: rtranclp_induct)
  case (step x y)
  from step(2) show ?case
  proof (cases rule: shared_stepE)
    case own
    then show ?thesis using step(3) by (rule conn_step_answerable)
  next
    case (outside s)
    then show ?thesis using step(3) by (simp add: all_answerable_def)
  qed
qed (rule assms(2))

text \<open>
  The bytes of the reply \<open>r\<close> to the request of task \<open>i\<close>, and the invariant of the frames
  sent and of those that wait behind them: they are such replies, at most one for each task
  and only once it has ended. With \<open>complete\<close>, no task has ended without one and none waits.
\<close>

definition reply_bytes :: "('aux, 's) conn \<Rightarrow> nat \<times> fcall \<Rightarrow> bytes" where
  "reply_bytes c ir = framed (reply_wire (msg_tag (requests c ! fst ir)) (snd ir))"

definition replies :: "bool \<Rightarrow> ('aux, 's) conn \<Rightarrow> (nat \<times> fcall) list \<Rightarrow> bool" where
  "replies complete c rs \<longleftrightarrow>
     distinct (map fst rs) \<and>
     conn_sent c @ conn_waiting c = map (reply_bytes c) rs \<and>
     (\<forall>i r. (i, r) \<in> set rs \<longrightarrow>
        i < length (conn_tasks c) \<and> snd (conn_tasks c ! i) = Finished \<and> sendable r) \<and>
     (complete \<longrightarrow> conn_waiting c = [] \<and>
        (\<forall>i < length (conn_tasks c). snd (conn_tasks c ! i) = Finished \<longrightarrow> i \<in> fst ` set rs))"

lemma advance_silent:
  "advance E out msg pc sv k = (pc', sv', k') \<Longrightarrow> pc \<noteq> Finished \<Longrightarrow> \<not> (\<exists>r. pc = Responding r) \<Longrightarrow>
     pc' \<noteq> Finished \<and> k' = k"
  by (cases pc rule: pc_cases) (auto simp: advance_def split: prod.splits sum.splits)


lemma replies_cong:
  assumes "conn_tasks c' = conn_tasks c" and "conn_sink c' = conn_sink c"
  shows "replies complete c' rs = replies complete c rs"
  using assms by (simp add: replies_def reply_bytes_def [abs_def] requests_def)

lemma replies_spawn:
  assumes "replies complete c rs" and "conn_tasks c' = conn_tasks c @ [(msg, Spawned)]"
    and "conn_sink c' = conn_sink c"
  shows "replies complete c' rs"
proof -
  have "reply_bytes c' (i, r) = reply_bytes c (i, r)" if "(i, r) \<in> set rs" for i r
    using assms(1,2) that by (auto simp: replies_def reply_bytes_def requests_def nth_append)
  then have "map (reply_bytes c') rs = map (reply_bytes c) rs" by auto
  with assms show ?thesis
    by (auto simp: replies_def nth_append less_Suc_eq)
qed

lemma replies_fresh:
  "replies complete c rs \<Longrightarrow> snd (conn_tasks c ! i) \<noteq> Finished \<Longrightarrow> (i, r) \<notin> set rs"
  by (auto simp: replies_def)

lemma replies_move:
  assumes "replies complete c rs" and "i < length (conn_tasks c)" and "conn_tasks c ! i = (msg, pc)"
    and "pc \<noteq> Finished" and "pc' \<noteq> Finished"
    and "conn_tasks c' = (conn_tasks c)[i := (msg, pc')]" and "conn_sink c' = conn_sink c"
  shows "replies complete c' rs"
proof -
  have "requests c' = requests c" using assms(2,3,6) by (simp add: requests_def)
  then have "reply_bytes c' = reply_bytes c" by (simp add: reply_bytes_def [abs_def])
  moreover have "(i, r) \<notin> set rs" for r
    using replies_fresh [OF assms(1), of i] assms(3,4) by simp
  ultimately show ?thesis
    using assms by (auto simp: replies_def nth_list_update)
qed

lemma replies_finish:
  assumes "replies complete c rs" and "i < length (conn_tasks c)" and "conn_tasks c ! i = (msg, Responding r)"
    and "conn_tasks c' = (conn_tasks c)[i := (msg, Finished)]"
    and "conn_sent c' @ conn_waiting c' =
      conn_sent c @ conn_waiting c @ (if b then [framed (reply_wire (msg_tag msg) r)] else [])"
    and "b \<Longrightarrow> sendable r" and "complete \<Longrightarrow> b \<and> conn_waiting c' = []"
  shows "replies complete c' (rs @ (if b then [(i, r)] else []))"
proof -
  have "requests c' = requests c" using assms(2-4) by (simp add: requests_def)
  then have same: "reply_bytes c' = reply_bytes c" by (simp add: reply_bytes_def [abs_def])
  have "requests c ! i = msg" using assms(2,3) by (simp add: requests_def)
  then have new: "reply_bytes c (i, r) = framed (reply_wire (msg_tag msg) r)"
    by (simp add: reply_bytes_def)
  have fresh: "(i, q) \<notin> set rs" for q
    using replies_fresh [OF assms(1), of i] assms(3) by simp
  with assms same new fresh show ?thesis
    by (auto simp: replies_def nth_list_update)
qed

lemma conn_step_replies:
  assumes "conn_step E lossy c c'" and "replies complete c rs"
    and "crates_laws (env_crates E)" and "codec_laws (env_codec E)" and "env_buffer E = growing"
    and "complete \<Longrightarrow> \<not> lossy \<and> all_answerable E c"
  shows "\<exists>rs'. replies complete c' rs'"
  using assms(1)
proof (cases rule: conn_task_stepE)
  case recv
  then show ?thesis
  proof (cases rule: receive_cases)
    case (close res rest)
    then have "replies complete c' rs = replies complete c rs" by (intro replies_cong) simp_all
    with assms(2) show ?thesis by blast
  next
    case (spawn bytes rest msg left)
    with replies_spawn [OF assms(2), of c' msg] show ?thesis by auto
  qed
next
  case (task i msg pc pc' sv' k' out)
  show ?thesis
  proof (cases "\<exists>r. pc = Responding r")
    case True
    then obtain r where pc: "pc = Responding r" ..
    let ?frame = "framed (reply_wire (msg_tag msg) r)"
    have pc': "pc' = Finished" and k': "k' = (if sendable r then put_frame out ?frame (conn_sink c) else conn_sink c)"
      using task(6) advance_responding [OF assms(3-5), of out msg r "conn_server c" "conn_sink c"]
      by (auto simp: pc)
    obtain b where b: "b \<Longrightarrow> sendable r"
      "sink_sent k' @ sink_buffer k' = conn_sent c @ conn_waiting c @ (if b then [?frame] else [])"
      "sendable r \<and> out = Accepted \<Longrightarrow> b \<and> sink_buffer k' = []"
    proof (cases "sendable r")
      case True
      then show thesis by (rule_tac put_frame_adds [of out ?frame "conn_sink c"]) (use that k' in auto)
    next
      case False
      then show thesis using that [of False] k' by simp
    qed
    moreover have "sendable r" if complete
    proof -
      have "(msg, Responding r) \<in> set (conn_tasks c)" using task(1,2) pc by (metis nth_mem)
      then show ?thesis using assms(6) that by (fastforce simp: all_answerable_def)
    qed
    ultimately have "replies complete c' (rs @ (if b then [(i, r)] else []))"
      using task pc pc' assms(6) by (intro replies_finish [OF assms(2) task(1), of msg r c' b]) auto
    then show ?thesis ..
  next
    case False
    from advance_silent [OF task(6,3) False] task have "replies complete c' rs"
      by (intro replies_move [OF assms(2) task(1,2,3)]) auto
    then show ?thesis ..
  qed
qed

lemma replies_start: "replies complete (conn_start frames s) []"
  by (simp add: replies_def conn_start_def)

lemma reachable_replies:
  assumes "conn_reachable E lossy c"
    and "crates_laws (env_crates E)" and "codec_laws (env_codec E)" and "env_buffer E = growing"
  shows "\<exists>rs. replies False c rs"
  using assms(1)
proof (induction rule: conn_reachable.induct)
  case (start frames s)
  show ?case by (rule exI) (rule replies_start)
next
  case (step c c')
  from step.hyps(2) show ?case
  proof (cases rule: shared_stepE)
    case own
    with step.IH show ?thesis using conn_step_replies [OF _ _ assms(2-4), of _ _ _ False] by blast
  next
    case (outside s)
    then have "replies False c' rs = replies False c rs" for rs by (intro replies_cong) simp_all
    with step.IH show ?thesis by blast
  qed
qed

lemma complete_replies:
  assumes "(shared_step E False others)\<^sup>*\<^sup>* (conn_start frames s) c"
    and "crates_laws (env_crates E)" and "codec_laws (env_codec E)" and "env_buffer E = growing"
    and "all_answerable E (conn_start frames s)"
  shows "\<exists>rs. replies True c rs"
  using assms(1)
proof (induction rule: rtranclp_induct)
  case base
  show ?case by (rule exI) (rule replies_start)
next
  case (step c c')
  have "all_answerable E c" using step(1) assms(5) by (rule shared_answerable)
  from step(2) show ?case
  proof (cases rule: shared_stepE)
    case own
    with step.IH \<open>all_answerable E c\<close> show ?thesis using conn_step_replies [OF _ _ assms(2-4)] by blast
  next
    case (outside s)
    then have "replies True c' rs = replies True c rs" for rs by (intro replies_cong) simp_all
    with step.IH show ?thesis by blast
  qed
qed

text \<open>
  C15. However the tasks interleave, whatever other connections do to the filesystem and
  whether or not the sink fails, every frame sent is the encoding of a reply with the tag of
  a received request, and no request is answered twice or before its task has ended.
\<close>

theorem replies_match_requests:
  assumes "conn_reachable E lossy c"
    and "crates_laws (env_crates E)" and "codec_laws (env_codec E)" and "env_buffer E = growing"
  shows "\<exists>rs. replies False c rs"
  using reachable_replies [OF assms] .

text \<open>The sample connection after the reply to its request was sent.\<close>

lemma sample_replied:
  "\<exists>c. conn_reachable sample_env False c \<and> conn_sent c = [framed (reply_wire 1 (RAttach root_qid))]"
proof -
  let ?sv = "\<lparr>srv_fids = [5 \<mapsto> \<lparr>fid_num = 5, fid_aux = ()\<rparr>], srv_fs = ()\<rparr>"
  let ?k = "\<lparr>sink_sent = [framed (reply_wire 1 (RAttach root_qid))], sink_buffer = []\<rparr>"
  let ?c = "sample_conn\<lparr>conn_tasks := [(sample_attach, Responding (RAttach root_qid))], conn_server := ?sv\<rparr>"
  have "conn_reachable sample_env False ?c"
    by (rule rtranclp_reachable [OF sample_conn_handled sample_conn_reachable])
  moreover have "advance sample_env Accepted sample_attach (Responding (RAttach root_qid)) ?sv
      \<lparr>sink_sent = [], sink_buffer = []\<rparr> = (Finished, ?sv, ?k)"
    by (subst advance_responding)
      (simp_all add: documented_crates_laws documented_codec_laws sample_attach_def sendable_def
        max_frame_length_def wire_QId_def put_frame_def)
  then have "conn_step sample_env False ?c
      (?c\<lparr>conn_tasks := [(sample_attach, Finished)],
         conn_sink := ?k\<rparr>)"
    using run_task_advance [of 0 ?c sample_attach "Responding (RAttach root_qid)" sample_env]
    by (simp add: sample_conn_def)
  ultimately have "conn_reachable sample_env False
      (?c\<lparr>conn_tasks := [(sample_attach, Finished)],
         conn_sink := ?k\<rparr>)"
    by (rule reachable_own)
  then show ?thesis by (intro exI conjI) (assumption, simp)
qed

theorem replies_match_requests_witness:
  "\<exists>(c :: (unit, unit) conn) rs. conn_reachable sample_env False c \<and> replies False c rs \<and> rs \<noteq> []"
proof -
  obtain c where c: "conn_reachable sample_env False c"
    "conn_sent c = [framed (reply_wire 1 (RAttach root_qid))]"
    using sample_replied by blast
  obtain rs where "replies False c rs"
    using replies_match_requests [OF c(1)] by (auto simp: documented_crates_laws documented_codec_laws)
  moreover from this c(2) have "rs \<noteq> []" by (auto simp: replies_def)
  ultimately show ?thesis using c(1) by blast
qed

lemma quiet_replies:
  assumes "replies True c rs" and "conn_quiet c"
  shows "mset (map fst rs) = mset [0..<length (requests c)]"
proof -
  have "fst ` set rs = {0..<length (requests c)}"
  proof (intro equalityI subsetI)
    fix i assume "i \<in> fst ` set rs"
    then show "i \<in> {0..<length (requests c)}"
      using assms(1) by (force simp: replies_def requests_def)
  next
    fix i assume "i \<in> {0..<length (requests c)}"
    then show "i \<in> fst ` set rs"
      using assms by (simp add: replies_def requests_def conn_quiet_def list_all_length)
  qed
  then have "set (map fst rs) = set [0..<length (requests c)]" by simp
  moreover have "distinct (map fst rs)" using assms(1) by (simp add: replies_def)
  ultimately show ?thesis by (metis distinct_upt set_eq_iff_mset_eq_distinct)
qed

lemma decode_carried_frames:
  assumes "crates_laws C" and "list_all carried msgs"
  shows "map (decode_frame C) (map (\<lambda>m. Inr (wire_Msg m)) msgs) = map Inr msgs"
proof -
  have "decode_frame C (Inr (wire_Msg m)) = Inr m" if "m \<in> set msgs" for m
    using crates_laws.decode_Msg_wire [OF assms(1), of m "[]"] assms(2) that
    by (simp add: decode_frame_def read_msg_def list_all_iff)
  then show ?thesis by simp
qed

lemma frames_split_all:
  assumes "frames_split C frames c" and "map (decode_frame C) frames = map Inr msgs"
    and "conn_result c \<noteq> None"
  shows "conn_result c = Some (Inr ()) \<and> requests c = msgs"
proof -
  have "map Inr msgs \<noteq> map Inr (requests c) @ Inl e # map (decode_frame C) (conn_input c)" for e
  proof
    assume "map Inr msgs = map Inr (requests c) @ Inl e # map (decode_frame C) (conn_input c)"
    then have "Inl e \<in> set (map Inr msgs)" by simp
    then show False by auto
  qed
  moreover have "map Inr msgs = map Inr ms \<Longrightarrow> ms = msgs" for ms :: "Msg list"
    by (drule map_injective) simp_all
  ultimately show ?thesis
    using assms by (auto simp: frames_split_def split: option.splits sum.splits)
qed

lemma runs_to_quiet:
  assumes "lock_discipline (env_fs E)" and "conn_orderly c"
  shows "\<exists>c'. (conn_step E lossy)\<^sup>*\<^sup>* c c' \<and> conn_quiet c'"
  using assms(2)
proof (induction c rule: wfp_induct_rule [OF conn_step_wfp [of E lossy]])
  case (1 c)
  show ?case
  proof (cases "\<exists>c'. conn_step E lossy c c'")
    case True
    then obtain c' where step: "conn_step E lossy c c'" ..
    then have "\<exists>s. conn_step E lossy (with_fs s c) c'" by (metis with_fs_simps(7))
    moreover have "conn_orderly c'"
      by (rule lock_discipline.conn_step_orderly [OF assms(1) step refl "1.prems"])
    ultimately have "\<exists>c''. (conn_step E lossy)\<^sup>*\<^sup>* c' c'' \<and> conn_quiet c''" by (rule "1.IH")
    with step show ?thesis
      by (auto intro: converse_rtranclp_into_rtranclp)
  next
    case False
    then show ?thesis using stuck_iff_quiet [OF "1.prems"] by blast
  qed
qed

text \<open>The bytes a client sends for some requests.\<close>

definition request_bytes :: "Msg list \<Rightarrow> bytes" where
  "request_bytes msgs = concat (map (\<lambda>m. framed (wire_Msg m)) msgs)"

lemma request_items:
  assumes "codec_laws F" and "list_all (\<lambda>m. length (wire_Msg m) + 4 \<le> max_frame_length) msgs"
  shows "codec_items F dispatch_framing (request_bytes msgs) = map (\<lambda>m. Inr (wire_Msg m)) msgs"
  using codec_laws.items_all [OF assms(1), of "map wire_Msg msgs" "[]"] assms(2)
  by (simp add: request_bytes_def codec_laws.items_end [OF assms(1)] list_all_iff comp_def)

text \<open>
  The frames are replies to the messages, one for each, told apart by their tags: \<open>js\<close> is the
  order in which the messages are answered.
\<close>

definition one_reply_each :: "Msg list \<Rightarrow> bytes list \<Rightarrow> bool" where
  "one_reply_each msgs sent \<longleftrightarrow>
     (\<exists>js rs. mset js = mset [0..<length msgs] \<and>
       map msg_tag rs = map (\<lambda>j. msg_tag (msgs ! j)) js \<and>
       list_all (\<lambda>m. is_r (msg_type_of (msg_body m))) rs \<and>
       sent = map (\<lambda>m. framed (wire_Msg m)) rs)"

lemma one_reply_each_length: "one_reply_each msgs sent \<Longrightarrow> length sent = length msgs"
  unfolding one_reply_each_def by (metis length_map size_mset length_upt diff_zero)

lemma requests_all_answered:
  assumes "crates_laws (env_crates E)" and "codec_laws (env_codec E)" and "env_buffer E = growing"
    and "list_all carried msgs" and "list_all (\<lambda>m. length (wire_Msg m) + 4 \<le> max_frame_length) msgs"
    and "list_all (\<lambda>m. answerable (env_fs E) (msg_body m)) msgs"
    and "(shared_step E False others)\<^sup>*\<^sup>* (conn_over E (request_bytes msgs) s) c"
    and "conn_quiet c"
  shows "conn_result c = Some (Inr ()) \<and> requests c = msgs \<and>
    one_reply_each msgs (conn_sent c)"
proof -
  let ?frames = "map (\<lambda>m. Inr (wire_Msg m)) msgs"
  have run: "(shared_step E False others)\<^sup>*\<^sup>* (conn_start ?frames s) c"
    using assms(7) by (simp add: conn_over_def request_items [OF assms(2,5)])
  have decoded: "map (decode_frame (env_crates E)) ?frames = map Inr msgs"
    by (rule decode_carried_frames [OF assms(1,4)])
  have fin: "conn_result c = Some (Inr ()) \<and> requests c = msgs"
    using frames_split_all [OF shared_frames_split [OF run] decoded] assms(8)
    by (simp add: conn_quiet_def)
  have "all_answerable E (conn_start ?frames s)"
    using decoded assms(6) by (auto simp: all_answerable_def conn_start_def list_all_iff)
  from complete_replies [OF run assms(1-3) this] obtain rs where rs: "replies True c rs" ..
  let ?ms = "map (\<lambda>ir. \<lparr>msg_tag = msg_tag (msgs ! fst ir), msg_body = snd ir\<rparr>) rs"
  have "mset (map fst rs) = mset [0..<length msgs]"
    using quiet_replies [OF rs assms(8)] fin by simp
  moreover have "map msg_tag ?ms = map (\<lambda>j. msg_tag (msgs ! j)) (map fst rs)" by simp
  moreover have "list_all (\<lambda>m. is_r (msg_type_of (msg_body m))) ?ms"
    using rs by (auto simp: replies_def sendable_def list_all_iff)
  moreover have "conn_sent c = map (\<lambda>m. framed (wire_Msg m)) ?ms"
    using rs fin by (auto simp: replies_def reply_bytes_def [abs_def] reply_wire_def)
  ultimately show ?thesis using fin unfolding one_reply_each_def by blast
qed

text \<open>
  C2. A client that sends any number of well-formed requests as bytes and then closes its
  side gets exactly one reply for each of them, whatever the interleaving of the tasks and
  whatever other connections do to the filesystem, if the filesystem answers each with a
  reply that fits a frame: when the connection has run to its end over a sink that does not
  fail, \<^verbatim>\<open>dispatch\<close> has returned success, the requests were those sent, and the replies on
  the stream are in one-to-one correspondence with them by their tags.
\<close>

theorem every_request_is_answered:
  assumes "crates_laws (env_crates E)" and "codec_laws (env_codec E)" and "env_buffer E = growing"
    and "list_all carried msgs" and "list_all (\<lambda>m. length (wire_Msg m) + 4 \<le> max_frame_length) msgs"
    and "list_all (\<lambda>m. answerable (env_fs E) (msg_body m)) msgs"
    and "(shared_step E False others)\<^sup>*\<^sup>* (conn_over E (request_bytes msgs) s) c"
    and "conn_quiet c"
  shows "conn_result c = Some (Inr ()) \<and> requests c = msgs \<and> one_reply_each msgs (conn_sent c)"
  using assms by (rule requests_all_answered)

lemma sample_attach_answerable: "answerable (sample_fs Ready) (msg_body sample_attach)"
  by (auto simp: answerable_def sample_attach_def route_def or_return_eq_Inr get_newfid_def sample_fs_def
      can_send_def sendable_def max_frame_length_def wire_QId_def split: option.splits)

lemma length_sample_attach: "length (wire_Msg sample_attach) = 19"
  by (simp add: wire_Msg_def sample_attach_def wire_String_def)

theorem every_request_is_answered_witness:
  "\<exists>c :: (unit, unit) conn. conn_result c = Some (Inr ()) \<and> requests c = [sample_attach, sample_attach] \<and> length (conn_sent c) = 2"
proof -
  let ?ms = "[sample_attach, sample_attach]"
  obtain c where run: "(conn_step sample_env False)\<^sup>*\<^sup>* (conn_over sample_env (request_bytes ?ms) ()) c"
    and quiet: "conn_quiet c"
    using runs_to_quiet [OF sample_env_disciplined conn_methods_over] by blast
  from every_request_is_answered [OF _ _ _ _ _ _ own_run [OF run] quiet] have
    "conn_result c = Some (Inr ()) \<and> requests c = ?ms \<and> one_reply_each ?ms (conn_sent c)"
    by (simp add: documented_crates_laws documented_codec_laws sample_attach_answerable
        sample_attach_carried length_sample_attach max_frame_length_def)
  with one_reply_each_length [of ?ms "conn_sent c"] show ?thesis by auto
qed

text \<open>
  C20. A reply that does not fit a frame is never sent: its task ends, nothing is put on the
  stream, and the client waits for its tag for ever.
\<close>

theorem oversized_reply_is_lost:
  assumes "crates_laws (env_crates E)" and "codec_laws (env_codec E)" and "env_buffer E = growing"
    and "i < length (conn_tasks c)" and "conn_tasks c ! i = (msg, Responding r)"
    and "max_frame_length < length (reply_wire (msg_tag msg) r)"
  shows "run_task E out i c = c\<lparr>conn_tasks := (conn_tasks c)[i := (msg, Finished)]\<rparr>"
  using assms(4-6)
  by (cases c) (simp add: run_task_def advance_responding [OF assms(1-3)] sendable_def length_reply_wire)

theorem oversized_reply_is_lost_witness:
  "conn_sent (run_task sample_env Accepted 0
     (sample_conn\<lparr>conn_tasks := [(sample_attach, Responding (RRead (Data (replicate 9000000 0))))]\<rparr>)) = []"
proof -
  let ?r = "RRead (Data (replicate 9000000 0))"
  have "max_frame_length < length (reply_wire (msg_tag sample_attach) ?r)"
    by (simp add: length_reply_wire max_frame_length_def)
  then show ?thesis
    using oversized_reply_is_lost [of sample_env 0
        "sample_conn\<lparr>conn_tasks := [(sample_attach, Responding ?r)]\<rparr>" sample_attach ?r Accepted]
    by (simp add: documented_crates_laws documented_codec_laws sample_conn_def)
qed

section \<open>The contract of a filesystem, along a connection\<close>

text \<open>
  What a filesystem promises holds in every state a connection reaches: its invariant, and
  that the handles of the table, of the fids still to insert and of the running methods are
  valid.
\<close>

context filesystem_contract begin

definition pc_valid :: "'s \<Rightarrow> ('aux, 's) pc \<Rightarrow> bool" where
  "pc_valid s pc \<longleftrightarrow>
     (\<forall>nf. pc_newfid pc = Some nf \<longrightarrow> valid (fid_aux nf) s) \<and>
     (case pc of
        Running _ fut \<Rightarrow>
          (\<exists>H. (\<forall>a \<in> H. valid a s) \<and>
             steady (\<lambda>s. inv s \<and> (\<forall>a \<in> H. valid a s)) (\<lambda>s s'. \<forall>b. valid b s \<longrightarrow> valid b s') (\<lambda>_. True) fut)
      | _ \<Rightarrow> True)"

lemma pc_valid_mono:
  assumes "pc_valid s pc" and "\<And>b. valid b s \<Longrightarrow> valid b s'"
  shows "pc_valid s' pc"
  using assms by (cases pc) (auto simp: pc_valid_def)

definition conn_good :: "('aux, 's) conn \<Rightarrow> bool" where
  "conn_good c \<longleftrightarrow>
     inv (srv_fs (conn_server c)) \<and>
     table_valid (srv_fids (conn_server c)) (srv_fs (conn_server c)) \<and>
     (\<forall>t \<in> set (conn_tasks c). pc_valid (srv_fs (conn_server c)) (snd t))"

lemma conn_good_start: "inv s \<Longrightarrow> conn_good (conn_start frames s)"
  by (simp add: conn_good_def conn_start_def table_valid_def)

text \<open>One move of a task.\<close>

lemma advance_spawned_good:
  assumes "advance E out msg Spawned sv k = (pc', sv', k')" and "env_fs E = fs"
    and "inv (srv_fs sv)" and "table_valid (srv_fids sv) (srv_fs sv)"
  shows "inv (srv_fs sv') \<and> (\<forall>b. valid b (srv_fs sv) \<longrightarrow> valid b (srv_fs sv')) \<and> pc_valid (srv_fs sv') pc'"
proof -
  obtain nf s1 where mk: "make_newfid fs (msg_body msg) (srv_fs sv) = (nf, s1)" by fastforce
  note kept = make_newfid_keeps(1,2) [OF mk] make_newfid_keeps(3) [of "msg_body msg" "srv_fs sv" _ s1]
  have table: "table_valid (srv_fids sv) s1"
    using assms(4) kept(2) by (rule table_valid_mono)
  show ?thesis
  proof (cases "route fs (srv_fids sv) nf (msg_body msg)")
    case (Inl e)
    with assms(1-3) mk kept show ?thesis by (auto simp: advance_def pc_valid_def)
  next
    case (Inr fut)
    have "\<forall>a \<in> handles (srv_fids sv) nf. valid a s1"
      using table kept(3) mk by (auto simp: handles_def table_valid_def)
    with method_steady [OF Inr] have "pc_valid s1 (Running nf fut)"
      using kept(3) mk by (auto simp: pc_valid_def)
    with Inr assms(1-3) mk kept show ?thesis by (auto simp: advance_def)
  qed
qed

lemma advance_good:
  assumes "advance E out msg pc sv k = (pc', sv', k')" and "env_fs E = fs"
    and "inv (srv_fs sv)" and "table_valid (srv_fids sv) (srv_fs sv)" and "pc_valid (srv_fs sv) pc"
  shows "inv (srv_fs sv') \<and> (\<forall>b. valid b (srv_fs sv) \<longrightarrow> valid b (srv_fs sv')) \<and> pc_valid (srv_fs sv') pc'"
proof (cases pc rule: pc_cases)
  case Spawned
  with assms show ?thesis using advance_spawned_good by blast
next
  case (Await nf w h upd nxt)
  from assms(5) obtain H where H: "\<forall>a \<in> H. valid a (srv_fs sv)"
    "steady (\<lambda>s. inv s \<and> (\<forall>a \<in> H. valid a s)) (\<lambda>s s'. \<forall>b. valid b s \<longrightarrow> valid b s') (\<lambda>_. True) (Await w h upd nxt)"
    by (auto simp: pc_valid_def Await)
  with assms(3) have after: "inv (upd (srv_fs sv))" "\<forall>a \<in> H. valid a (upd (srv_fs sv))"
    "\<forall>b. valid b (srv_fs sv) \<longrightarrow> valid b (upd (srv_fs sv))"
    "steady (\<lambda>s. inv s \<and> (\<forall>a \<in> H. valid a s)) (\<lambda>s s'. \<forall>b. valid b s \<longrightarrow> valid b s') (\<lambda>_. True)
       (nxt (srv_fs sv))"
    by auto
  have "pc_newfid pc = nf" by (simp add: Await)
  then have "\<forall>f. nf = Some f \<longrightarrow> valid (fid_aux f) (srv_fs sv)"
    using assms(5) by (simp add: pc_valid_def)
  with after have "pc_valid (upd (srv_fs sv)) (Running nf (nxt (srv_fs sv)))"
    unfolding pc_valid_def by auto
  with after(1,3) assms(1) show ?thesis by (auto simp: Await)
qed (use assms in \<open>auto simp: advance_def pc_valid_def split: sum.splits prod.splits if_splits\<close>)

lemma advance_table_valid:
  assumes "advance E out msg pc sv k = (pc', sv', k')" and "env_fs E = fs"
    and "inv (srv_fs sv)" and "table_valid (srv_fids sv) (srv_fs sv)" and "pc_valid (srv_fs sv) pc"
  shows "table_valid (srv_fids sv') (srv_fs sv')"
  unfolding table_valid_def
proof
  fix f assume "f \<in> ran (srv_fids sv')"
  then obtain x where "srv_fids sv' x = Some f" by (auto simp: ran_def)
  from advance_table [OF assms(1) this] assms(4,5) have "valid (fid_aux f) (srv_fs sv)"
    by (auto simp: table_valid_def pc_valid_def ran_def)
  then show "valid (fid_aux f) (srv_fs sv')"
    using advance_good [OF assms] by blast
qed

lemma conn_step_good:
  assumes "conn_step E lossy c c'" and "env_fs E = fs" and "conn_good c"
  shows "conn_good c'"
  using assms(1)
proof (cases rule: conn_task_stepE)
  case recv
  then show ?thesis
    using assms(3) by (cases rule: receive_cases) (auto simp: conn_good_def pc_valid_def)
next
  case (task i msg pc pc' sv' k' out)
  have "(msg, pc) \<in> set (conn_tasks c)" using task(1,2) by (metis nth_mem)
  then have good: "inv (srv_fs (conn_server c))"
    "table_valid (srv_fids (conn_server c)) (srv_fs (conn_server c))"
    "pc_valid (srv_fs (conn_server c)) pc"
    using assms(3) by (auto simp: conn_good_def)
  note move = advance_good [OF task(6) assms(2) good]
  have "pc_valid (srv_fs sv') (snd t)" if "t \<in> set ((conn_tasks c)[i := (msg, pc')])" for t
    using in_list_update [OF that] assms(3) move by (auto simp: conn_good_def intro: pc_valid_mono)
  then show ?thesis
    using move advance_table_valid [OF task(6) assms(2) good] task(7) by (simp add: conn_good_def)
qed

text \<open>
  In every state reached from a start on which the invariant holds, among others that keep
  the promises too.
\<close>

lemma run_good:
  assumes "(shared_step E lossy others)\<^sup>*\<^sup>* (conn_start frames s) c" and "env_fs E = fs" and "inv s"
    and others: "\<And>s s'. others s s' \<Longrightarrow> inv s \<Longrightarrow> inv s' \<and> (\<forall>b. valid b s \<longrightarrow> valid b s')"
  shows "conn_good c"
  using assms(1)
proof (induction rule: rtranclp_induct)
  case base
  show ?case by (rule conn_good_start [OF assms(3)])
next
  case (step c c')
  from step(2) show ?case
  proof (cases rule: shared_stepE)
    case own
    then show ?thesis using conn_step_good assms(2) step(3) by blast
  next
    case (outside s)
    have "inv s" and mono: "\<And>b. valid b (srv_fs (conn_server c)) \<Longrightarrow> valid b s"
      using others [OF outside(2)] step(3) by (auto simp: conn_good_def)
    with step(3) show ?thesis
      by (auto simp: conn_good_def outside(1) intro: table_valid_mono pc_valid_mono)
  qed
qed

end

end
