(* ===== verification/Listen.thy ===== *)
theory Listen
  imports Connection
begin

text \<open>
  The listeners at the end of \<^verbatim>\<open>crates/rs9p/src/srv.rs\<close> and the parser of listen
  addresses in \<^verbatim>\<open>crates/rs9p/src/utils.rs\<close>. The sockets of \<^verbatim>\<open>tokio\<close> are parameters: what
  binding an address gives, and what the accepts on it yield, as far as they have come.
\<close>

section \<open>Addresses\<close>

definition bang :: u8 where
  "bang = 0x21"

text \<open>\<^verbatim>\<open>str::split\<close> at a character: always at least one piece.\<close>

fun split_on :: "u8 \<Rightarrow> rstring \<Rightarrow> rstring list" where
  "split_on c [] = [[]]"
| "split_on c (b # s) =
     (if b = c then [] # split_on c s
      else case split_on c s of [] \<Rightarrow> [[b]] | piece # pieces \<Rightarrow> (b # piece) # pieces)"

definition parse_proto :: "rstring \<Rightarrow> (rstring \<times> rstring \<times> rstring) option" where
  "parse_proto arg =
     (case split_on bang arg of
        proto # addr # port # _ \<Rightarrow> Some (proto, addr, port)
      | _ \<Rightarrow> None)"

section \<open>Serving\<close>

record 'st net =
  tcp_bind :: "rstring \<Rightarrow> io_error + (io_error + 'st) list"
  unix_bind :: "rstring \<Rightarrow> io_error + (io_error + 'st) list"

text \<open>
  What a listener has done: the streams it spawned a connection for, its result (\<open>None\<close>
  while it waits for the next stream) and whether it removed its socket file.
\<close>

record 'st serving =
  sv_streams :: "'st list"
  sv_result :: "(error + unit) option"
  sv_removed :: bool

definition served_nothing :: "(error + unit) \<Rightarrow> 'st serving" where
  "served_nothing r = \<lparr>sv_streams = [], sv_result = Some r, sv_removed = False\<rparr>"

text \<open>The loop of \<^verbatim>\<open>srv_async_tcp\<close>: an accept that fails is the result.\<close>

fun tcp_loop :: "(io_error + 'st) list \<Rightarrow> 'st serving" where
  "tcp_loop [] = \<lparr>sv_streams = [], sv_result = None, sv_removed = False\<rparr>"
| "tcp_loop (Inl e # accepts) = served_nothing (Inl (error_from_io e))"
| "tcp_loop (Inr st # accepts) =
     (let r = tcp_loop accepts in r\<lparr>sv_streams := st # sv_streams r\<rparr>)"

definition srv_async_tcp :: "'st net \<Rightarrow> rstring \<Rightarrow> 'st serving" where
  "srv_async_tcp N addr =
     (case tcp_bind N addr of
        Inl e \<Rightarrow> served_nothing (Inl (error_from_io e))
      | Inr accepts \<Rightarrow> tcp_loop accepts)"

text \<open>
  The loop of \<^verbatim>\<open>srv_async_unix\<close>: an accept that fails ends it with success, and the drop of
  \<^verbatim>\<open>DeleteOnDrop\<close> removes the socket file.
\<close>

fun unix_loop :: "(io_error + 'st) list \<Rightarrow> 'st serving" where
  "unix_loop [] = \<lparr>sv_streams = [], sv_result = None, sv_removed = False\<rparr>"
| "unix_loop (Inl e # accepts) = \<lparr>sv_streams = [], sv_result = Some (Inr ()), sv_removed = True\<rparr>"
| "unix_loop (Inr st # accepts) =
     (let r = unix_loop accepts in r\<lparr>sv_streams := st # sv_streams r\<rparr>)"

definition srv_async_unix :: "'st net \<Rightarrow> rstring \<Rightarrow> 'st serving" where
  "srv_async_unix N path =
     (case unix_bind N path of
        Inl e \<Rightarrow> served_nothing (Inl (error_from_io e))
      | Inr accepts \<Rightarrow> unix_loop accepts)"

definition srv_async :: "'st net \<Rightarrow> rstring \<Rightarrow> 'st serving" where
  "srv_async N arg =
     (case parse_proto arg of
        None \<Rightarrow> served_nothing (Inl (error_from_io (Custom InvalidInput ''Invalid protocol or address'')))
      | Some (proto, addr, port) \<Rightarrow>
          let listen_addr = addr @ ascii '':'' @ port in
          if proto = ascii ''tcp'' then srv_async_tcp N listen_addr
          else if proto = ascii ''unix'' then srv_async_unix N listen_addr
          else served_nothing (Inl (error_from_io (Custom InvalidInput ''Protocol not supported''))))"

section \<open>Properties\<close>

lemma split_on_piece:
  "c \<notin> set p \<Longrightarrow> split_on c (p @ c # s) = p # split_on c s"
  "c \<notin> set p \<Longrightarrow> split_on c p = [p]"
  by (induction p) auto

lemma parse_proto_three:
  assumes "bang \<notin> set proto" and "bang \<notin> set addr" and "bang \<notin> set port"
  shows "parse_proto (proto @ bang # addr @ bang # port) = Some (proto, addr, port)"
    and "parse_proto (proto @ bang # addr @ bang # port @ bang # rest) = Some (proto, addr, port)"
  using assms by (simp_all add: parse_proto_def split_on_piece)

text \<open>Both loops serve the streams accepted before the first failure, in order.\<close>

definition accepted :: "(io_error + 'st) list \<Rightarrow> 'st list" where
  "accepted accepts = map projr (takeWhile (\<lambda>a. \<not> isl a) accepts)"

lemma tcp_loop_spec:
  "tcp_loop accepts =
     \<lparr>sv_streams = accepted accepts,
      sv_result = map_option (\<lambda>a. Inl (error_from_io (projl a))) (find isl accepts), sv_removed = False\<rparr>"
  by (induction accepts rule: tcp_loop.induct) (simp_all add: accepted_def served_nothing_def Let_def)

lemma unix_loop_spec:
  "unix_loop accepts =
     \<lparr>sv_streams = accepted accepts, sv_result = map_option (\<lambda>_. Inr ()) (find isl accepts),
      sv_removed = (find isl accepts \<noteq> None)\<rparr>"
  by (induction accepts rule: unix_loop.induct) (simp_all add: accepted_def Let_def)

text \<open>
  C38. Serving an address \<^verbatim>\<open>proto!addr!port\<close> listens at \<^verbatim>\<open>addr:port\<close>, on a Unix socket too.
  Both protocols serve every stream accepted before the first accept that fails, and none
  after it; then a TCP server ends with that error, but a Unix server reports success, and
  only then removes its socket file.
\<close>

theorem serving_an_address:
  assumes "bang \<notin> set addr" and "bang \<notin> set port"
    and "tcp_bind N (addr @ ascii '':'' @ port) = Inr accepts"
    and "unix_bind N (addr @ ascii '':'' @ port) = Inr accepts"
  shows "srv_async N (ascii ''tcp'' @ bang # addr @ bang # port) =
      \<lparr>sv_streams = accepted accepts,
       sv_result = map_option (\<lambda>a. Inl (error_from_io (projl a))) (find isl accepts), sv_removed = False\<rparr> \<and>
    srv_async N (ascii ''unix'' @ bang # addr @ bang # port) =
      \<lparr>sv_streams = accepted accepts, sv_result = map_option (\<lambda>_. Inr ()) (find isl accepts),
       sv_removed = (find isl accepts \<noteq> None)\<rparr>"
proof -
  have "bang \<notin> set (ascii ''tcp'')" and "bang \<notin> set (ascii ''unix'')" and "ascii ''unix'' \<noteq> ascii ''tcp''"
    by (simp_all add: bang_def ascii_def)
  with assms show ?thesis
    by (simp add: srv_async_def parse_proto_three srv_async_tcp_def srv_async_unix_def
        tcp_loop_spec unix_loop_spec Let_def)
qed

definition sample_net :: "nat net" where
  "sample_net = \<lparr>tcp_bind = (\<lambda>_. Inr [Inr 1, Inr 2, Inl (Os 24), Inr 3]),
     unix_bind = (\<lambda>_. Inr [Inr 1, Inr 2, Inl (Os 24), Inr 3])\<rparr>"

theorem serving_an_address_witness:
  "srv_async sample_net (ascii ''unix'' @ bang # ascii ''/tmp/s'' @ bang # ascii ''0'') =
     \<lparr>sv_streams = [1, 2], sv_result = Some (Inr ()), sv_removed = True\<rparr>"
  using serving_an_address [of "ascii ''/tmp/s''" "ascii ''0''" sample_net "[Inr 1, Inr 2, Inl (Os 24), Inr 3]"]
  by (simp add: sample_net_def accepted_def bang_def ascii_def)

end
