(* ===== verification/System.thy ===== *)
theory System
  imports Interleave Listen
begin

text \<open>
  The whole server: the listener and every connection it has accepted, as
  \<^verbatim>\<open>srv_async_tcp\<close> and \<^verbatim>\<open>srv_async_unix\<close> spawn them, over one state of the filesystem that
  all connections share. Any of them may move next, except that a task waits for a lock of the
  filesystem that another task holds, of whatever connection. The listener of the system does what
  the loops of \<open>Listen\<close> do, and each connection behaves as a connection of \<open>Connection\<close>
  alone, for which the others are changes of the filesystem from outside.
\<close>

section \<open>State and steps\<close>

datatype protocol = Tcp | Unix

text \<open>
  What the accepts still yield, a stream with the bytes its client sends or an error; the
  result of the listener and whether it removed its socket file; the state of the
  filesystem; the connections in the order of their streams, each with its own table, tasks
  and sink. A connection sees the state of the filesystem the system has.
\<close>

record ('aux, 's) system =
  sy_accepts :: "(io_error + bytes) list"
  sy_result :: "(error + unit) option"
  sy_removed :: bool
  sy_fs :: 's
  sy_conns :: "('aux, 's) conn list"

definition sys_start :: "(io_error + bytes) list \<Rightarrow> 's \<Rightarrow> ('aux, 's) system" where
  "sys_start accepts s =
     \<lparr>sy_accepts = accepts, sy_result = None, sy_removed = False, sy_fs = s, sy_conns = []\<rparr>"

definition sys_conn :: "('aux, 's) system \<Rightarrow> nat \<Rightarrow> ('aux, 's) conn" where
  "sys_conn S i = with_fs (sy_fs S) (sy_conns S ! i)"

text \<open>How the listener ends when an accept fails.\<close>

definition ending :: "protocol \<Rightarrow> io_error \<Rightarrow> (error + unit) \<times> bool" where
  "ending P e = (case P of Tcp \<Rightarrow> (Inl (error_from_io e), False) | Unix \<Rightarrow> (Inr (), True))"

text \<open>
  One round of the listener's loop; \<open>None\<close> while it waits for the next stream and once it
  has returned.
\<close>

definition accept :: "('aux, 's) env \<Rightarrow> protocol \<Rightarrow> ('aux, 's) system \<Rightarrow> ('aux, 's) system option" where
  "accept E P S =
     (case sy_result S of
        Some _ \<Rightarrow> None
      | None \<Rightarrow>
          (case sy_accepts S of
             [] \<Rightarrow> None
           | Inr stream # rest \<Rightarrow>
               Some (S\<lparr>sy_accepts := rest, sy_conns := sy_conns S @ [conn_over E stream (sy_fs S)]\<rparr>)
           | Inl e # rest \<Rightarrow>
               Some (S\<lparr>sy_accepts := rest, sy_result := Some (fst (ending P e)),
                       sy_removed := snd (ending P e)\<rparr>)))"

text \<open>The system after connection \<open>i\<close> has moved.\<close>

definition put_conn :: "('aux, 's) system \<Rightarrow> nat \<Rightarrow> ('aux, 's) conn \<Rightarrow> ('aux, 's) system" where
  "put_conn S i c = S\<lparr>sy_fs := srv_fs (conn_server c), sy_conns := (sy_conns S)[i := c]\<rparr>"

text \<open>The locks held by the tasks of all connections.\<close>

definition sys_held :: "('aux, 's) system \<Rightarrow> access list" where
  "sys_held S = concat (map conn_held (sy_conns S))"

text \<open>
  A task of a connection also waits for the locks of the filesystem that tasks of other
  connections hold. \<open>lossy i\<close> says whether the stream of connection \<open>i\<close> may fail to take a
  frame.
\<close>

inductive sys_step ::
  "('aux, 's) env \<Rightarrow> protocol \<Rightarrow> (nat \<Rightarrow> bool) \<Rightarrow> ('s \<Rightarrow> 's \<Rightarrow> bool) \<Rightarrow>
    ('aux, 's) system \<Rightarrow> ('aux, 's) system \<Rightarrow> bool"
  for E P lossy others where
  listen: "accept E P S = Some S' \<Longrightarrow> sys_step E P lossy others S S'"
| receive: "i < length (sy_conns S) \<Longrightarrow> receive E (sys_conn S i) = Some c \<Longrightarrow>
    sys_step E P lossy others S (put_conn S i c)"
| task: "i < length (sy_conns S) \<Longrightarrow> j < length (conn_tasks (sys_conn S i)) \<Longrightarrow> can_move (sys_conn S i) j \<Longrightarrow>
    lock_free (pc_wants (snd (conn_tasks (sys_conn S i) ! j))) (sys_held S) \<Longrightarrow> out = Accepted \<or> lossy i \<Longrightarrow>
    sys_step E P lossy others S (put_conn S i (run_task E out j (sys_conn S i)))"
| outside: "others (sy_fs S) s \<Longrightarrow> sys_step E P lossy others S (S\<lparr>sy_fs := s\<rparr>)"

inductive_cases sys_step_cases [consumes 1, case_names listen receive task outside]:
  "sys_step E P lossy others S S'"

text \<open>A step of the system is one of the listener, of one connection, or of someone else.\<close>

lemma sys_stepE [consumes 1, case_names listen serve outside]:
  assumes "sys_step E P lossy others S S'"
  obtains
    (listen) "accept E P S = Some S'"
  | (serve) i c where "S' = put_conn S i c" "i < length (sy_conns S)"
      "conn_step E (lossy i) (sys_conn S i) c"
  | (outside) s where "S' = S\<lparr>sy_fs := s\<rparr>" "others (sy_fs S) s"
  using assms by (cases rule: sys_step_cases) (blast intro: conn_step.intros)+

lemma sys_step_mono:
  "sys_step E P lossy (\<lambda>_ _. False) S S' \<Longrightarrow> sys_step E P lossy others S S'"
  by (erule sys_step_cases) (auto intro: sys_step.intros)

lemma with_fs_again [simp]: "with_fs s (with_fs s' c) = with_fs s c"
  by (simp add: with_fs_def)

lemma sys_start_simps [simp]:
  "sy_accepts (sys_start accepts s) = accepts" "sy_result (sys_start accepts s) = None"
  "\<not> sy_removed (sys_start accepts s)" "sy_fs (sys_start accepts s) = s"
  "sy_conns (sys_start accepts s) = []"
  by (simp_all add: sys_start_def)

lemma put_conn_simps [simp]:
  "sy_accepts (put_conn S i c) = sy_accepts S" "sy_result (put_conn S i c) = sy_result S"
  "sy_removed (put_conn S i c) = sy_removed S" "sy_fs (put_conn S i c) = srv_fs (conn_server c)"
  "length (sy_conns (put_conn S i c)) = length (sy_conns S)"
  by (simp_all add: put_conn_def)

lemma sys_conn_put:
  "i < length (sy_conns S) \<Longrightarrow>
     sys_conn (put_conn S i c) j = (if j = i then c else with_fs (srv_fs (conn_server c)) (sys_conn S j))"
  by (simp add: sys_conn_def put_conn_def nth_list_update)

lemma sys_conn_outside: "sys_conn (S\<lparr>sy_fs := s\<rparr>) j = with_fs s (sys_conn S j)"
  by (simp add: sys_conn_def)

lemma srv_fs_sys_conn [simp]: "srv_fs (conn_server (sys_conn S i)) = sy_fs S"
  by (simp add: sys_conn_def)

lemma acceptE [consumes 1, case_names stream failed]:
  assumes "accept E P S = Some S'"
  obtains
    (stream) stream rest where "sy_result S = None" "sy_accepts S = Inr stream # rest"
      "sy_result S' = None" "sy_removed S' = sy_removed S" "sy_accepts S' = rest" "sy_fs S' = sy_fs S"
      "sy_conns S' = sy_conns S @ [conn_over E stream (sy_fs S)]"
  | (failed) e rest where "sy_result S = None" "sy_accepts S = Inl e # rest"
      "sy_result S' = Some (fst (ending P e))" "sy_removed S' = snd (ending P e)" "sy_accepts S' = rest"
      "sy_fs S' = sy_fs S" "sy_conns S' = sy_conns S"
  using assms
  by (auto simp: accept_def split: option.splits list.splits sum.splits)

section \<open>The listener\<close>

definition listener :: "protocol \<Rightarrow> (io_error + bytes) list \<Rightarrow> bytes serving" where
  "listener P accepts = (case P of Tcp \<Rightarrow> tcp_loop accepts | Unix \<Rightarrow> unix_loop accepts)"

text \<open>How far the accepts have come: the streams taken, and the error the listener ended with.\<close>

definition taken :: "protocol \<Rightarrow> (io_error + bytes) list \<Rightarrow> ('aux, 's) system \<Rightarrow> bytes list \<Rightarrow> bool" where
  "taken P accepts S streams \<longleftrightarrow>
     length (sy_conns S) = length streams \<and>
     (case sy_result S of
        None \<Rightarrow> \<not> sy_removed S \<and> accepts = map Inr streams @ sy_accepts S
      | Some r \<Rightarrow> \<exists>e. accepts = map Inr streams @ Inl e # sy_accepts S \<and> (r, sy_removed S) = ending P e)"

lemma sys_step_taken:
  assumes "sys_step E P lossy others S S'" and "taken P accepts S streams"
  shows "taken P accepts S' streams \<or>
    (\<exists>stream. taken P accepts S' (streams @ [stream]) \<and>
       sy_conns S' = sy_conns S @ [conn_over E stream (sy_fs S)] \<and> sy_fs S' = sy_fs S)"
  using assms(1)
proof (cases rule: sys_stepE)
  case listen
  then show ?thesis
    using assms(2) by (cases rule: acceptE) (auto simp: taken_def)
qed (use assms(2) in \<open>simp_all add: taken_def cong: option.case_cong\<close>)

lemma run_taken:
  assumes "(sys_step E P lossy others)\<^sup>*\<^sup>* (sys_start accepts s) S"
  shows "\<exists>streams. taken P accepts S streams"
  using assms
proof (induction rule: rtranclp_induct)
  case base
  show ?case by (rule exI [of _ "[]"]) (simp add: taken_def)
next
  case (step S S')
  then show ?case using sys_step_taken by blast
qed

lemma accepted_append: "accepted (map Inr streams @ accepts) = streams @ accepted accepts"
  by (induction streams) (simp_all add: accepted_def)

lemma find_streams: "find isl (map Inr streams @ accepts) = find isl accepts"
  by (induction streams) simp_all

lemma taken_accepted:
  "taken P accepts S streams \<Longrightarrow> \<exists>more. accepted accepts = streams @ more"
  by (auto simp: taken_def accepted_append split: option.splits)

lemma accepted_ends [simp]: "accepted [] = []" "accepted (Inl e # accepts) = []"
  by (simp_all add: accepted_def)

lemma listener_done:
  assumes "(sys_step E P lossy others)\<^sup>*\<^sup>* (sys_start accepts s) S" and "accept E P S = None"
  shows "length (sy_conns S) = length (sv_streams (listener P accepts)) \<and>
    sy_result S = sv_result (listener P accepts) \<and> sy_removed S = sv_removed (listener P accepts)"
proof -
  obtain streams where taken: "taken P accepts S streams" using run_taken [OF assms(1)] ..
  show ?thesis
  proof (cases "sy_result S")
    case None
    then have "sy_accepts S = []"
      using assms(2) by (auto simp: accept_def split: list.splits sum.splits)
    with None taken show ?thesis
      using accepted_append [of streams "[]"] find_streams [of streams "[]"]
      by (cases P) (simp_all add: taken_def listener_def tcp_loop_spec unix_loop_spec)
  next
    case (Some r)
    then obtain e where "accepts = map Inr streams @ Inl e # sy_accepts S" "(r, sy_removed S) = ending P e"
      using taken by (auto simp: taken_def)
    with Some taken show ?thesis
      by (cases P) (auto simp: taken_def listener_def tcp_loop_spec unix_loop_spec accepted_append
          find_streams ending_def)
  qed
qed

text \<open>
  C19. The listener of the system is that of \<open>Listen\<close>: whatever the connections do meanwhile,
  once it can do no more it has the result of \<^verbatim>\<open>srv_async_tcp\<close> or \<^verbatim>\<open>srv_async_unix\<close> on the
  accepts, has removed its socket file just when they do, and has spawned one connection for
  each stream they serve.
\<close>

theorem system_listens:
  assumes "(sys_step E P lossy others)\<^sup>*\<^sup>* (sys_start accepts s) S" and "accept E P S = None"
  shows "length (sy_conns S) = length (sv_streams (listener P accepts)) \<and>
    sy_result S = sv_result (listener P accepts) \<and> sy_removed S = sv_removed (listener P accepts)"
  using assms by (rule listener_done)

section \<open>Each connection alone\<close>

lemma sys_step_conn:
  assumes "sys_step E P lossy others S S'" and "i < length (sy_conns S)"
  shows "shared_step E (lossy i) (\<lambda>_ _. True) (sys_conn S i) (sys_conn S' i)"
  using assms(1)
proof (cases rule: sys_stepE)
  case listen
  then have "sys_conn S' i = sys_conn S i"
    using assms(2) by (cases rule: acceptE) (simp_all add: sys_conn_def nth_append)
  moreover have "shared_step E (lossy i) (\<lambda>_ _. True) (sys_conn S i) (with_fs (sy_fs S) (sys_conn S i))"
    by (rule shared_step.outside) simp
  ultimately show ?thesis by (simp add: sys_conn_def)
next
  case (serve j c)
  then show ?thesis
    by (cases "j = i") (auto simp: sys_conn_put intro: shared_step.intros)
next
  case (outside s)
  then show ?thesis by (auto simp: sys_conn_outside intro: shared_step.outside)
qed

lemma run_taken_conn:
  assumes "(sys_step E P lossy others)\<^sup>*\<^sup>* (sys_start accepts s) S"
  shows "\<exists>streams. taken P accepts S streams \<and>
    (\<forall>i < length streams. \<exists>s. (shared_step E (lossy i) (\<lambda>_ _. True))\<^sup>*\<^sup>* (conn_over E (streams ! i) s) (sys_conn S i))"
  using assms
proof (induction rule: rtranclp_induct)
  case base
  show ?case by (rule exI [of _ "[]"]) (simp add: taken_def)
next
  case (step S S')
  then obtain streams where IH: "taken P accepts S streams"
    "\<And>i. i < length streams \<Longrightarrow>
       \<exists>s. (shared_step E (lossy i) (\<lambda>_ _. True))\<^sup>*\<^sup>* (conn_over E (streams ! i) s) (sys_conn S i)"
    by blast
  have n: "length (sy_conns S) = length streams" using IH(1) by (simp add: taken_def)
  have old: "\<exists>s. (shared_step E (lossy i) (\<lambda>_ _. True))\<^sup>*\<^sup>* (conn_over E (streams ! i) s) (sys_conn S' i)"
    if "i < length streams" for i
    using IH(2) [OF that] sys_step_conn [OF step(2)] that n
    by (auto intro: rtranclp.rtrancl_into_rtrancl)
  from sys_step_taken [OF step(2) IH(1)] show ?case
  proof
    assume "taken P accepts S' streams"
    with old show ?thesis by blast
  next
    assume "\<exists>stream. taken P accepts S' (streams @ [stream]) \<and>
       sy_conns S' = sy_conns S @ [conn_over E stream (sy_fs S)] \<and> sy_fs S' = sy_fs S"
    then obtain stream where new: "taken P accepts S' (streams @ [stream])"
      "sy_conns S' = sy_conns S @ [conn_over E stream (sy_fs S)]" "sy_fs S' = sy_fs S" by blast
    then have "sys_conn S' (length streams) = conn_over E stream (sy_fs S)"
      using n by (simp add: sys_conn_def nth_append conn_over_def conn_start_def with_fs_def)
    with new(1) old show ?thesis
      by (intro exI [of _ "streams @ [stream]"]) (auto simp: nth_append less_Suc_eq)
  qed
qed

lemma connection_alone:
  assumes "(sys_step E P lossy others)\<^sup>*\<^sup>* (sys_start accepts s) S" and "i < length (sy_conns S)"
  shows "i < length (accepted accepts) \<and>
    (\<exists>s. (shared_step E (lossy i) (\<lambda>_ _. True))\<^sup>*\<^sup>* (conn_over E (accepted accepts ! i) s) (sys_conn S i))"
proof -
  obtain streams where streams: "taken P accepts S streams"
    "\<And>i. i < length streams \<Longrightarrow>
       \<exists>s. (shared_step E (lossy i) (\<lambda>_ _. True))\<^sup>*\<^sup>* (conn_over E (streams ! i) s) (sys_conn S i)"
    using run_taken_conn [OF assms(1)] by blast
  have "i < length streams" using assms(2) streams(1) by (simp add: taken_def)
  then show ?thesis
    using taken_accepted [OF streams(1)] streams(2) by (auto simp: nth_append)
qed

text \<open>
  C17. In the whole server each connection behaves as one that is alone: it is in a state
  that a single connection over the bytes of its own stream reaches among changes of the
  filesystem from outside. What holds of every such state holds of every connection the
  server has, whatever its other clients send.
\<close>

theorem each_connection_runs_alone:
  assumes "(sys_step E P lossy others)\<^sup>*\<^sup>* (sys_start accepts s) S" and "i < length (sy_conns S)"
  shows "i < length (accepted accepts) \<and>
    (\<exists>s. (shared_step E (lossy i) (\<lambda>_ _. True))\<^sup>*\<^sup>* (conn_over E (accepted accepts ! i) s) (sys_conn S i))"
  using assms by (rule connection_alone)

section \<open>The system comes to rest\<close>

definition sys_quiet :: "('aux, 's) env \<Rightarrow> protocol \<Rightarrow> ('aux, 's) system \<Rightarrow> bool" where
  "sys_quiet E P S \<longleftrightarrow> accept E P S = None \<and> list_all conn_quiet (sy_conns S)"

lemma conn_quiet_with_fs [simp]: "conn_quiet (with_fs s c) = conn_quiet c"
  by (simp add: conn_quiet_def)

lemma put_conn_again [simp]: "put_conn (put_conn S i c) i c' = put_conn S i c'"
  by (simp add: put_conn_def)

definition sys_order :: "(('aux, 's) system \<times> ('aux, 's) system) set" where
  "sys_order =
     inv_image (less_than <*lex*> mult conn_order) (\<lambda>S. (length (sy_accepts S), mset (sy_conns S)))"

lemma wf_sys_order: "wf sys_order"
  unfolding sys_order_def by (intro wf_inv_image wf_lex_prod wf_mult wf_conn_order) simp

lemma sys_step_order:
  assumes "sys_step E P lossy (\<lambda>_ _. False) (S\<lparr>sy_fs := s\<rparr>) S'"
  shows "(S', S) \<in> sys_order"
  using assms
proof (cases rule: sys_stepE)
  case listen
  then show ?thesis by (cases rule: acceptE) (auto simp: sys_order_def)
next
  case (serve i c)
  then have "(c, sy_conns S ! i) \<in> conn_order"
    using conn_step_order [OF serve(3)] by (simp add: sys_conn_def)
  with serve(1,2) show ?thesis
    using mult_update [of i "sy_conns S" c conn_order] by (simp add: sys_order_def put_conn_def)
qed simp

text \<open>The tasks of all connections take one lock at a time.\<close>

definition sys_methods :: "(('s, error + fcall) future \<Rightarrow> bool) \<Rightarrow> ('aux, 's) system \<Rightarrow> bool" where
  "sys_methods law S \<longleftrightarrow> list_all (conn_methods law) (sy_conns S)"

abbreviation sys_orderly :: "('aux, 's) system \<Rightarrow> bool" where
  "sys_orderly \<equiv> sys_methods orderly"

lemma sys_methods_conn: "sys_methods law S \<Longrightarrow> i < length (sy_conns S) \<Longrightarrow> conn_methods law (sys_conn S i)"
  by (simp add: sys_methods_def sys_conn_def list_all_length)

lemma sys_methods_start: "sys_methods law (sys_start accepts s)"
  by (simp add: sys_methods_def)

lemma sys_conn_simps [simp]:
  "conn_tasks (sys_conn S i) = conn_tasks (sy_conns S ! i)"
  "conn_result (sys_conn S i) = conn_result (sy_conns S ! i)"
  "conn_held (sys_conn S i) = conn_held (sy_conns S ! i)"
  by (simp_all add: sys_conn_def)

text \<open>
  No deadlock: a task that holds a lock can go on, whatever connection it is of, and where
  none is held the lock of a table is all that can delay a task.
\<close>

lemma sys_task_moves:
  assumes "sys_orderly S" and "i < length (sy_conns S)" and "\<not> list_all (\<lambda>t. snd t = Finished) (conn_tasks (sy_conns S ! i))"
  shows "\<exists>S'. sys_step E P lossy (\<lambda>_ _. False) S S'"
proof (cases "sys_held S = []")
  case True
  obtain k where k: "k < length (conn_tasks (sys_conn S i))" "snd (conn_tasks (sys_conn S i) ! k) \<noteq> Finished"
    using assms(3) by (auto simp: list_all_length)
  obtain j where "j < length (conn_tasks (sys_conn S i))" "can_move (sys_conn S i) j"
    using some_task_moves [OF sys_methods_conn [OF assms(1,2)] k] by blast
  with True have "sys_step E P lossy (\<lambda>_ _. False) S (put_conn S i (run_task E Accepted j (sys_conn S i)))"
    by (intro sys_step.task [OF assms(2)]) simp_all
  then show ?thesis ..
next
  case False
  then obtain c where "c \<in> set (sy_conns S)" "conn_held c \<noteq> []" by (auto simp: sys_held_def)
  then obtain l where l: "l < length (sy_conns S)" "conn_held (sys_conn S l) \<noteq> []"
    by (auto simp: in_set_conv_nth)
  then obtain j where "j < length (conn_tasks (sys_conn S l))" "can_move (sys_conn S l) j"
    "pc_wants (snd (conn_tasks (sys_conn S l) ! j)) = None"
    using holder_moves [OF sys_methods_conn [OF assms(1)]] by blast
  then have "sys_step E P lossy (\<lambda>_ _. False) S (put_conn S l (run_task E Accepted j (sys_conn S l)))"
    by (intro sys_step.task [OF l(1)]) simp_all
  then show ?thesis ..
qed

lemma sys_stuck_iff_quiet:
  assumes "sys_orderly S"
  shows "(\<nexists>S'. sys_step E P lossy (\<lambda>_ _. False) S S') \<longleftrightarrow> sys_quiet E P S"
proof
  assume stuck: "\<nexists>S'. sys_step E P lossy (\<lambda>_ _. False) S S'"
  have "conn_quiet (sy_conns S ! i)" if i: "i < length (sy_conns S)" for i
  proof -
    have "receive E (sys_conn S i) = None"
      using stuck sys_step.receive [OF i] by (metis option.exhaust)
    then have "conn_result (sy_conns S ! i) \<noteq> None"
      using receive_not_None [of "sys_conn S i" E] by auto
    with stuck sys_task_moves [OF assms i, of E P lossy] show ?thesis by (auto simp: conn_quiet_def)
  qed
  moreover have "accept E P S = None"
    using stuck sys_step.listen by (metis option.exhaust)
  ultimately show "sys_quiet E P S" by (simp add: sys_quiet_def list_all_length)
next
  assume quiet: "sys_quiet E P S"
  show "\<nexists>S'. sys_step E P lossy (\<lambda>_ _. False) S S'"
  proof
    assume "\<exists>S'. sys_step E P lossy (\<lambda>_ _. False) S S'"
    then obtain S' where "sys_step E P lossy (\<lambda>_ _. False) S S'" ..
    then show False
    proof (cases rule: sys_stepE)
      case (serve i c)
      then have "conn_quiet (sys_conn S i)"
        using quiet by (simp add: sys_quiet_def list_all_length sys_conn_def)
      with serve(2,3) stuck_iff_quiet [OF sys_methods_conn [OF assms]] show False by blast
    qed (use quiet in \<open>simp_all add: sys_quiet_def\<close>)
  qed
qed

context method_law begin

lemma sys_step_methods:
  assumes "sys_step E P lossy others S S'" and "env_fs E = fs" and "sys_methods law S"
  shows "sys_methods law S'"
  using assms(1)
proof (cases rule: sys_stepE)
  case listen
  then show ?thesis
    using assms(3) conn_methods_over by (cases rule: acceptE) (simp_all add: sys_methods_def)
next
  case (serve i c)
  then have "conn_methods law c"
    using conn_step_methods [OF _ assms(2)] sys_methods_conn [OF assms(3)] by blast
  with serve(1) assms(3) show ?thesis by (simp add: sys_methods_def put_conn_def list_all_update)
qed (use assms(3) in \<open>simp add: sys_methods_def\<close>)

lemma run_methods:
  assumes "(sys_step E P lossy others)\<^sup>*\<^sup>* (sys_start accepts s) S" and "env_fs E = fs"
  shows "sys_methods law S"
  using assms(1)
proof (induction rule: rtranclp_induct)
  case base
  show ?case by (rule sys_methods_start)
next
  case (step S S')
  show ?case by (rule sys_step_methods [OF step(2) assms(2) step(3)])
qed

end

context lock_discipline begin

lemmas sys_step_orderly = sys_step_methods
lemmas run_orderly = run_methods

end

lemma sys_steps_wfp: "wfp (\<lambda>S' S. \<exists>s. sys_step E P lossy (\<lambda>_ _. False) (S\<lparr>sy_fs := s\<rparr>) S')"
proof -
  have "{(S', S). \<exists>s. sys_step E P lossy (\<lambda>_ _. False) (S\<lparr>sy_fs := s\<rparr>) S'} \<subseteq> sys_order"
    using sys_step_order by fast
  then show ?thesis unfolding wfp_def by (auto intro: wf_subset [OF wf_sys_order])
qed

text \<open>
  C18. The server comes to rest. Once no further client connects, its steps are well founded
  whatever others do to the filesystem between them, so that every schedule of its tasks
  ends; and if the methods of the filesystem take one lock at a time, it is stuck only when
  the listener waits or has returned, every \<^verbatim>\<open>dispatch\<close> has returned and every task has
  ended: there is no deadlock between the tasks of any connections.
\<close>

theorem server_comes_to_rest:
  assumes "lock_discipline (env_fs E)" and "(sys_step E P lossy others)\<^sup>*\<^sup>* (sys_start accepts s) S"
  shows "wfp (\<lambda>S' S. \<exists>s. sys_step E P lossy (\<lambda>_ _. False) (S\<lparr>sy_fs := s\<rparr>) S') \<and>
    ((\<nexists>S'. sys_step E P lossy (\<lambda>_ _. False) S S') \<longleftrightarrow> sys_quiet E P S)"
  by (rule conjI [OF sys_steps_wfp sys_stuck_iff_quiet [OF lock_discipline.run_orderly [OF assms refl]]])

text \<open>A connection runs on its own while the others hold no lock.\<close>

lemma serve_alone:
  assumes "conn_step E (lossy i) (sys_conn S i) c" and "i < length (sy_conns S)"
    and "\<And>j. j < length (sy_conns S) \<Longrightarrow> j \<noteq> i \<Longrightarrow> conn_held (sy_conns S ! j) = []"
  shows "sys_step E P lossy others S (put_conn S i c)"
  using assms(1)
proof cases
  case receive
  show ?thesis by (rule sys_step.receive [OF assms(2) receive])
next
  case (task j k)
  have "a \<in> set (conn_held (sys_conn S i))" if held: "a \<in> set (sys_held S)" for a
  proof -
    obtain d where "d \<in> set (sy_conns S)" "a \<in> set (conn_held d)"
      using held by (auto simp: sys_held_def)
    then obtain l where "l < length (sy_conns S)" "a \<in> set (conn_held (sy_conns S ! l))"
      unfolding in_set_conv_nth [of d] by blast
    with assms(3) show ?thesis by (cases "l = i") auto
  qed
  then have "lock_free (pc_wants (snd (conn_tasks (sys_conn S i) ! j))) (sys_held S)"
    using task(3) by (auto simp: can_move_def lock_free_def list_all_iff split: option.splits)
  then show ?thesis
    unfolding task(1) by (rule sys_step.task [where lossy = lossy, OF assms(2) task(2,3) _ task(4)])
qed

lemma run_conn:
  assumes "(conn_step E (lossy i))\<^sup>*\<^sup>* (sys_conn S i) c" and "i < length (sy_conns S)"
    and "\<And>j. j < length (sy_conns S) \<Longrightarrow> j \<noteq> i \<Longrightarrow> conn_held (sy_conns S ! j) = []"
  shows "(sys_step E P lossy others)\<^sup>*\<^sup>* S (put_conn S i c) \<or> c = sys_conn S i"
  using assms(1)
proof (induction rule: rtranclp_induct)
  case (step c c')
  show ?case
  proof (cases "c = sys_conn S i")
    case True
    with step(2) serve_alone [OF _ assms(2,3)] show ?thesis by blast
  next
    case False
    with step(3) have "(sys_step E P lossy others)\<^sup>*\<^sup>* S (put_conn S i c)" by blast
    moreover have "sys_step E P lossy others (put_conn S i c) (put_conn (put_conn S i c) i c')"
      using assms(2,3) step(2) by (intro serve_alone) (simp_all add: sys_conn_put, simp add: put_conn_def)
    ultimately show ?thesis by (auto intro: rtranclp.rtrancl_into_rtrancl)
  qed
qed simp

lemma accepts_all: "\<exists>S'. (sys_step E P lossy others)\<^sup>*\<^sup>* S S' \<and> accept E P S' = None"
proof (induction "length (sy_accepts S)" arbitrary: S rule: less_induct)
  case less
  show ?case
  proof (cases "accept E P S")
    case (Some S')
    then have "length (sy_accepts S') < length (sy_accepts S)" by (cases rule: acceptE) simp_all
    with less sys_step.listen [OF Some] show ?thesis by (blast intro: converse_rtranclp_into_rtranclp)
  qed blast
qed

text \<open>
  From every state the listener and the connections can finish what they have to do.
\<close>

lemma system_settles:
  assumes "lock_discipline (env_fs E)" and "sys_orderly S"
  shows "\<exists>S'. (sys_step E P lossy others)\<^sup>*\<^sup>* S S' \<and> sys_quiet E P S'"
  using assms(2)
proof (induction S rule: wfp_induct_rule [OF sys_steps_wfp [of E P lossy]])
  case (1 S)
  show ?case
  proof (cases "\<exists>S'. sys_step E P lossy (\<lambda>_ _. False) S S'")
    case True
    then obtain S' where step: "sys_step E P lossy (\<lambda>_ _. False) S S'" ..
    have "S\<lparr>sy_fs := sy_fs S\<rparr> = S" by simp
    with step have "\<exists>s. sys_step E P lossy (\<lambda>_ _. False) (S\<lparr>sy_fs := s\<rparr>) S'" by metis
    moreover have "sys_orderly S'"
      by (rule lock_discipline.sys_step_orderly [OF assms(1) step refl "1.prems"])
    ultimately have "\<exists>S''. (sys_step E P lossy others)\<^sup>*\<^sup>* S' S'' \<and> sys_quiet E P S''" by (rule "1.IH")
    with sys_step_mono [OF step] show ?thesis by (blast intro: converse_rtranclp_into_rtranclp)
  next
    case False
    then show ?thesis using sys_stuck_iff_quiet [OF "1.prems"] by blast
  qed
qed

section \<open>Locks exclude each other\<close>

definition excluding :: "access multiset \<Rightarrow> bool" where
  "excluding M \<longleftrightarrow> (\<forall>a b. {#a, b#} \<subseteq># M \<longrightarrow> \<not> conflicts a b)"

lemma excluding_le: "excluding M \<Longrightarrow> N \<subseteq># M \<Longrightarrow> excluding N"
  unfolding excluding_def by (meson subset_mset.order_trans)

lemma excluding_add:
  assumes "excluding M" and "\<And>b. b \<in># M \<Longrightarrow> \<not> conflicts a b"
  shows "excluding (add_mset a M)"
  unfolding excluding_def
proof (intro allI impI)
  fix x y assume sub: "{#x, y#} \<subseteq># add_mset a M"
  consider "x = a" | "y = a" | "x \<noteq> a" "y \<noteq> a" by blast
  then show "\<not> conflicts x y"
  proof cases
    case 1
    with sub have "y \<in># M" by simp
    with 1 assms(2) show ?thesis by simp
  next
    case 2
    then have "{#a, x#} \<subseteq># add_mset a M" using sub by (simp add: add_mset_commute)
    then have "x \<in># M" by simp
    with 2 assms(2) [of x] show ?thesis by (simp add: conflicts_sym [of x])
  next
    case 3
    then have "count {#x, y#} z \<le> count M z" for z
      using sub by (cases "z = a") (auto simp: subseteq_mset_def split: if_splits)
    then have "{#x, y#} \<subseteq># M" by (simp add: subseteq_mset_def)
    with assms(1) show ?thesis by (simp add: excluding_def)
  qed
qed

lemma mset_concat_update:
  "i < length xs \<Longrightarrow>
     mset (concat (map f (xs[i := x]))) + mset (f (xs ! i)) = mset (concat (map f xs)) + mset (f x)"
proof (induction xs arbitrary: i)
  case (Cons y ys)
  show ?case
  proof (cases i)
    case (Suc k)
    with Cons.prems have "mset (concat (map f (ys[k := x]))) + mset (f (ys ! k)) = mset (concat (map f ys)) + mset (f x)"
      by (intro Cons.IH) simp
    with Suc show ?thesis by (simp add: ac_simps)
  qed (simp add: ac_simps)
qed simp

lemma put_conn_held:
  "i < length (sy_conns S) \<Longrightarrow>
     mset (sys_held (put_conn S i c)) + mset (conn_held (sys_conn S i)) = mset (sys_held S) + mset (conn_held c)"
  using mset_concat_update [of i "sy_conns S" conn_held c] by (simp add: sys_held_def put_conn_def)

context lock_discipline begin

lemma advance_held:
  assumes "advance E out msg pc sv k = (pc', sv', k')" and "env_fs E = fs" and "pc_method orderly pc"
  shows "mset (pc_holds pc') \<subseteq># mset (held_after (pc_wants pc) (pc_holds pc))"
proof -
  have "holds fut = []" if "route (env_fs E) fids nf body = Inr fut" for fids nf body fut
    using method_fresh that assms(2) by auto
  with assms(1,3) show ?thesis
    by (cases pc rule: pc_cases)
      (auto simp: advance_def split: prod.splits sum.splits if_splits,
       (metis empty_le mset.simps(1) subset_mset.order_refl)+)
qed

lemma run_task_held:
  assumes "j < length (conn_tasks c)" and "conn_orderly c" and "env_fs E = fs"
  shows "mset (conn_held (run_task E out j c)) \<subseteq>#
    mset (conn_held c) + mset (held_after (pc_wants (snd (conn_tasks c ! j))) [])"
proof -
  obtain msg pc where t: "conn_tasks c ! j = (msg, pc)" by fastforce
  obtain pc' sv' k' where adv: "advance E out msg pc (conn_server c) (conn_sink c) = (pc', sv', k')"
    by (metis prod_cases3)
  from advance_held [OF adv assms(3) conn_methods_task [OF assms(2,1) t]]
  have "mset (pc_holds pc') \<subseteq># mset (pc_holds pc) + mset (held_after (pc_wants pc) [])"
    by (cases "pc_wants pc") simp_all
  moreover have "mset (conn_held (run_task E out j c)) + mset (pc_holds pc) = mset (conn_held c) + mset (pc_holds pc')"
    using mset_concat_update [OF assms(1), of "\<lambda>t. pc_holds (snd t)" "(msg, pc')"] t adv
    by (simp add: conn_held_def run_task_def)
  ultimately have "mset (conn_held (run_task E out j c)) + mset (pc_holds pc) \<subseteq>#
      (mset (conn_held c) + mset (held_after (pc_wants pc) [])) + mset (pc_holds pc)"
    by (simp add: ac_simps)
  then show ?thesis using t by (simp only: mset_subset_eq_mono_add_right_cancel snd_conv)
qed

lemma sys_step_excluding:
  assumes "sys_step E P lossy others S S'" and "env_fs E = fs" and "sys_orderly S"
    and "excluding (mset (sys_held S))"
  shows "excluding (mset (sys_held S'))"
  using assms(1)
proof (cases rule: sys_step_cases)
  case listen
  then show ?thesis
    using assms(4) by (cases rule: acceptE) (simp_all add: sys_held_def conn_over_def conn_start_def conn_held_def)
next
  case (receive i c)
  have "conn_held c = conn_held (sys_conn S i)"
    using receive(3) by (cases rule: receive_cases) (simp_all add: conn_held_def)
  with put_conn_held [OF receive(2), of c] receive(1) assms(4) show ?thesis by simp
next
  case (task i j out)
  let ?c = "sys_conn S i"
  let ?w = "pc_wants (snd (conn_tasks ?c ! j))"
  have "mset (sys_held S') + mset (conn_held ?c) \<subseteq># (mset (sys_held S) + mset (held_after ?w [])) + mset (conn_held ?c)"
    using put_conn_held [OF task(2), of "run_task E out j ?c"] task(1)
      run_task_held [OF task(3) sys_methods_conn [OF assms(3) task(2)] assms(2), of out]
    by (simp add: ac_simps)
  then have "mset (sys_held S') \<subseteq># mset (sys_held S) + mset (held_after ?w [])"
    by (simp only: mset_subset_eq_mono_add_right_cancel)
  moreover have "excluding (mset (sys_held S) + mset (held_after ?w []))"
    using assms(4) task(5) by (cases ?w) (auto intro: excluding_add simp: lock_free_def list_all_iff)
  ultimately show ?thesis by (rule excluding_le [rotated])
qed (use assms(4) in \<open>simp add: sys_held_def\<close>)

lemma run_excluding:
  assumes "(sys_step E P lossy others)\<^sup>*\<^sup>* (sys_start accepts s) S" and "env_fs E = fs"
  shows "excluding (mset (sys_held S))"
  using assms(1)
proof (induction rule: rtranclp_induct)
  case base
  show ?case by (simp add: sys_held_def excluding_def)
next
  case (step S S')
  show ?case by (rule sys_step_excluding [OF step(2) assms(2) run_orderly [OF step(1) assms(2)] step(3)])
qed

end

section \<open>Every client is answered\<close>

text \<open>
  Each connection over a sink that does not fail, once it is quiet, has answered every
  request of a client that sent only well-formed ones, whatever the other clients sent.
\<close>

lemma client_answered:
  assumes "crates_laws (env_crates E)" and "codec_laws (env_codec E)" and "env_buffer E = growing"
    and "(sys_step E P lossy others)\<^sup>*\<^sup>* (sys_start accepts s) S"
    and "i < length (sy_conns S)" and "\<not> lossy i" and "conn_quiet (sy_conns S ! i)"
    and "accepted accepts ! i = request_bytes msgs"
    and "list_all carried msgs" and "list_all (\<lambda>m. length (wire_Msg m) + 4 \<le> max_frame_length) msgs"
    and "list_all (\<lambda>m. answerable (env_fs E) (msg_body m)) msgs"
  shows "conn_result (sy_conns S ! i) = Some (Inr ()) \<and> requests (sy_conns S ! i) = msgs \<and>
    one_reply_each msgs (conn_sent (sy_conns S ! i))"
proof -
  obtain s where "(shared_step E False (\<lambda>_ _. True))\<^sup>*\<^sup>* (conn_over E (request_bytes msgs) s) (sys_conn S i)"
    using connection_alone [OF assms(4,5)] assms(6,8) by auto
  from requests_all_answered [OF assms(1-3,9-11) this] assms(7) show ?thesis
    by (simp add: sys_conn_def requests_def)
qed

section \<open>The contract of a filesystem, with many clients\<close>

text \<open>
  What a filesystem promises holds for all connections at once: each keeps the invariant of
  the shared state and the validity of the handles of the others.
\<close>

context filesystem_contract begin

definition sys_good :: "('aux, 's) system \<Rightarrow> bool" where
  "sys_good S \<longleftrightarrow> inv (sy_fs S) \<and> (\<forall>i < length (sy_conns S). conn_good (sys_conn S i))"

lemma conn_good_with_fs:
  assumes "conn_good c" and "inv s" and "\<And>b. valid b (srv_fs (conn_server c)) \<Longrightarrow> valid b s"
  shows "conn_good (with_fs s c)"
  using assms by (auto simp: conn_good_def intro: table_valid_mono pc_valid_mono)

lemma conn_step_valid:
  assumes "conn_step E lossy c c'" and "env_fs E = fs" and "conn_good c"
    and "valid b (srv_fs (conn_server c))"
  shows "valid b (srv_fs (conn_server c'))"
  using assms(1)
proof (cases rule: conn_task_stepE)
  case recv
  then show ?thesis
    using assms(4) by (cases rule: receive_cases) simp_all
next
  case (task i msg pc pc' sv' k' out)
  have "(msg, pc) \<in> set (conn_tasks c)" using task(1,2) by (metis nth_mem)
  then have "inv (srv_fs (conn_server c))"
    "table_valid (srv_fids (conn_server c)) (srv_fs (conn_server c))"
    "pc_valid (srv_fs (conn_server c)) pc"
    using assms(3) by (auto simp: conn_good_def)
  from advance_good [OF task(6) assms(2) this] assms(4) task(7) show ?thesis by simp
qed

lemma run_sys_good:
  assumes "(sys_step E P lossy others)\<^sup>*\<^sup>* (sys_start accepts s) S" and "env_fs E = fs" and "inv s"
    and others: "\<And>s s'. others s s' \<Longrightarrow> inv s \<Longrightarrow> inv s' \<and> (\<forall>b. valid b s \<longrightarrow> valid b s')"
  shows "sys_good S"
  using assms(1)
proof (induction rule: rtranclp_induct)
  case base
  show ?case using assms(3) by (simp add: sys_good_def)
next
  case (step S S')
  note good = step(3) [unfolded sys_good_def]
  from step(2) show ?case
  proof (cases rule: sys_stepE)
    case listen
    then show ?thesis
    proof (cases rule: acceptE)
      case (stream st rest)
      have "conn_good (sys_conn S' (length (sy_conns S)))"
        using conn_good_start good stream by (simp add: sys_conn_def conn_over_def conn_start_def with_fs_def)
      with good stream show ?thesis
        by (auto simp: sys_good_def sys_conn_def nth_append less_Suc_eq)
    next
      case (failed e rest)
      with good show ?thesis by (simp add: sys_good_def sys_conn_def)
    qed
  next
    case (serve i c)
    then have c: "conn_good c" using conn_step_good [OF _ assms(2)] good by blast
    have "conn_good (with_fs (srv_fs (conn_server c)) (sys_conn S j))" if "j < length (sy_conns S)" for j
      using good that c serve conn_step_valid [OF serve(3) assms(2)]
      by (intro conn_good_with_fs) (auto simp: conn_good_def [of c])
    with c serve show ?thesis by (auto simp: sys_good_def sys_conn_put conn_good_def [of c])
  next
    case (outside s')
    have "conn_good (with_fs s' (sys_conn S j))" if "j < length (sy_conns S)" for j
      using good that others [OF outside(2)] by (intro conn_good_with_fs) auto
    with outside others [OF outside(2)] good show ?thesis
      by (auto simp: sys_good_def sys_conn_outside)
  qed
qed

end

section \<open>Witnesses\<close>

theorem server_comes_to_rest_witness:
  "\<exists>S' :: (unit, unit) system. sys_step sample_env Tcp (\<lambda>_. False) (\<lambda>_ _. False) (sys_start [Inr []] ()) S'"
proof -
  have "\<not> sys_quiet sample_env Tcp (sys_start [Inr []] ())" by (simp add: sys_quiet_def accept_def)
  with server_comes_to_rest [OF sample_env_disciplined rtranclp.rtrancl_refl] show ?thesis by blast
qed

theorem system_listens_witness:
  "\<exists>S :: (unit, unit) system. (sys_step sample_env Unix (\<lambda>_. False) (\<lambda>_ _. False))\<^sup>*\<^sup>*
       (sys_start [Inr [], Inl (Os 24), Inr []] ()) S \<and>
     length (sy_conns S) = 1 \<and> sy_result S = Some (Inr ()) \<and> sy_removed S"
proof -
  obtain S where S: "(sys_step sample_env Unix (\<lambda>_. False) (\<lambda>_ _. False))\<^sup>*\<^sup>*
      (sys_start [Inr [], Inl (Os 24), Inr []] ()) S" "accept sample_env Unix S = None"
    using accepts_all by blast
  from system_listens [OF this] S(1) show ?thesis
    by (auto simp: listener_def Let_def)
qed

theorem each_connection_runs_alone_witness:
  "\<exists>(S :: (unit, unit) system) s. length (sy_conns S) = 2 \<and>
     (shared_step sample_env False (\<lambda>_ _. True))\<^sup>*\<^sup>* (conn_over sample_env [1] s) (sys_conn S 1)"
proof -
  let ?accepts = "[Inr (request_bytes [sample_attach]), Inr [1]]"
  obtain S where S: "(sys_step sample_env Tcp (\<lambda>_. False) (\<lambda>_ _. False))\<^sup>*\<^sup>* (sys_start ?accepts ()) S"
    "accept sample_env Tcp S = None"
    using accepts_all by blast
  have two: "length (sy_conns S) = 2"
    using listener_done [OF S] by (simp add: listener_def Let_def numeral_2_eq_2)
  with each_connection_runs_alone [OF S(1), of 1] show ?thesis
    by (auto simp: accepted_def)
qed

end
