(* ===== verification/Unpfs.thy ===== *)
theory Unpfs
  imports Host System
begin

unbundle bit_operations_syntax

text \<open>
  The example server \<^verbatim>\<open>unpfs\<close> of \<^verbatim>\<open>crates/unpfs/src/main.rs\<close>, which exports a directory:
  the data behind a fid, one future per method of its \<^verbatim>\<open>Filesystem\<close> implementation, cut
  into pieces where the source takes a lock or calls the host, with the locks it holds at
  each of them, and the promises it keeps however the pieces of its methods interleave.
\<close>

section \<open>State\<close>

record UnpfsFId =
  ufid_realpath :: path
  ufid_file :: "fd option"
  ufid_depth :: nat

record Unpfs =
  realroot :: path
  max_depth :: nat

text \<open>
  The data behind the fids made so far, each addressed by its position, and the world. Each
  field has a lock of its own in the source.
\<close>

record 'w unpfs_state =
  up_cells :: "UnpfsFId list"
  up_os :: 'w

type_synonym ('w, 'a) unpfs_piece = "('w unpfs_state, error, 'a) comp"
type_synonym ('w, 'a) unpfs_call = "('w unpfs_state, error + 'a) future"
type_synonym ufid = "nat FId"

definition new_cell :: UnpfsFId where
  "new_cell = \<lparr>ufid_realpath = [], ufid_file = None, ufid_depth = 0\<rparr>"

definition unpfs_default :: "'w unpfs_state \<Rightarrow> nat \<times> 'w unpfs_state" where
  "unpfs_default s = (length (up_cells s), s\<lparr>up_cells := up_cells s @ [new_cell]\<rparr>)"

definition cell :: "ufid \<Rightarrow> 'w unpfs_state \<Rightarrow> UnpfsFId" where
  "cell f s = up_cells s ! fid_aux f"

definition peek :: "ufid \<Rightarrow> (UnpfsFId \<Rightarrow> 'a) \<Rightarrow> ('w, 'a) unpfs_piece" where
  "peek f sel s = (Inr (sel (cell f s)), s)"

definition poke :: "ufid \<Rightarrow> (UnpfsFId \<Rightarrow> UnpfsFId) \<Rightarrow> ('w, unit) unpfs_piece" where
  "poke f upd s = (Inr (), s\<lparr>up_cells := (up_cells s)[fid_aux f := upd (cell f s)]\<rparr>)"

text \<open>A call on the world.\<close>

definition sys :: "('w, error, 'a) comp \<Rightarrow> ('w, 'a) unpfs_piece" where
  "sys op s = (case op (up_os s) of (r, w) \<Rightarrow> (r, s\<lparr>up_os := w\<rparr>))"

text \<open>
  A field has the lock of its name: \<open>''realpath''\<close> and \<open>''depth''\<close> a \<^verbatim>\<open>RwLock\<close>, \<open>''file''\<close> a \<^verbatim>\<open>Mutex\<close>.
  A field is read or written in one piece that takes its lock and releases it; a call of the
  host is a piece that takes no lock, made under one where the source keeps the guard.
\<close>

abbreviation get :: "ufid \<Rightarrow> string \<Rightarrow> (UnpfsFId \<Rightarrow> 'a) \<Rightarrow> ('w, 'a) unpfs_call" where
  "get f fld sel \<equiv> locked (Shared (fid_aux f, fld)) (peek f sel)"

abbreviation put :: "ufid \<Rightarrow> string \<Rightarrow> (UnpfsFId \<Rightarrow> UnpfsFId) \<Rightarrow> ('w, unit) unpfs_call" where
  "put f fld upd \<equiv> locked (Exclusive (fid_aux f, fld)) (poke f upd)"

abbreviation host :: "('w, error, 'a) comp \<Rightarrow> ('w, 'a) unpfs_call" where
  "host op \<equiv> atomically (sys op)"

text \<open>A section that keeps the lock of the path while the host works on it.\<close>

abbreviation with_realpath :: "ufid \<Rightarrow> (path \<Rightarrow> ('w, 'a) unpfs_call) \<Rightarrow> ('w, 'a) unpfs_call" where
  "with_realpath f k \<equiv> under (Shared (fid_aux f, ''realpath'')) (peek f ufid_realpath) k"

abbreviation done_with :: "'a \<Rightarrow> ('w, 'a) unpfs_call" where
  "done_with x \<equiv> Ready (Inr x)"

definition when_set :: "bool \<Rightarrow> ('w, unit) unpfs_call \<Rightarrow> ('w, unit) unpfs_call" where
  "when_set b op = (if b then op else done_with ())"

section \<open>Attaching and walking\<close>

definition unpfs_rattach ::
  "'w os \<Rightarrow> Unpfs \<Rightarrow> ufid \<Rightarrow> ufid option \<Rightarrow> rstring \<Rightarrow> rstring \<Rightarrow> u32 \<Rightarrow> ('w, fcall) unpfs_call" where
  "unpfs_rattach S U f afid uname aname n_uname =
     await_ok (put f ''realpath'' (ufid_realpath_update (\<lambda>_. realroot U))) (\<lambda>_.
     await_ok (put f ''depth'' (ufid_depth_update (\<lambda>_. 0))) (\<lambda>_.
     await_ok (host (get_qid S (realroot U))) (\<lambda>qid.
     done_with (RAttach qid))))"

text \<open>The depth after one more name; \<open>None\<close> beyond the limit.\<close>

definition step_depth :: "nat \<Rightarrow> nat \<Rightarrow> rstring \<Rightarrow> nat option" where
  "step_depth limit d name =
     (if name = ascii ''..'' then Some (d - 1)
      else if name \<noteq> ascii ''.'' then (if d + 1 > limit then None else Some (d + 1))
      else Some d)"

text \<open>The loop over the names; \<open>first\<close> is \<^verbatim>\<open>i == 0\<close>.\<close>

fun walk_loop ::
  "'w os \<Rightarrow> nat \<Rightarrow> bool \<Rightarrow> rstring list \<Rightarrow> path \<Rightarrow> nat \<Rightarrow> QId list \<Rightarrow>
    ('w, path \<times> nat \<times> QId list) unpfs_call" where
  "walk_loop S limit first [] p d wqids = done_with (p, d, wqids)"
| "walk_loop S limit first (name # names) p d wqids =
     (case step_depth limit d name of
        None \<Rightarrow> Ready (Inl (No ELOOP))
      | Some d' \<Rightarrow>
          await (host (get_qid S (path_push p name))) (\<lambda>r. case r of
            Inr qid \<Rightarrow> walk_loop S limit False names (path_push p name) d' (wqids @ [qid])
          | Inl e \<Rightarrow>
              if first then Ready (Inl e) else done_with (path_push p name, d', wqids)))"

definition unpfs_rwalk ::
  "'w os \<Rightarrow> Unpfs \<Rightarrow> ufid \<Rightarrow> ufid \<Rightarrow> rstring list \<Rightarrow> ('w, fcall) unpfs_call" where
  "unpfs_rwalk S U f newfid wnames =
     await_ok (get f ''realpath'' ufid_realpath) (\<lambda>p.
     await_ok (get f ''depth'' ufid_depth) (\<lambda>current_depth.
     await_ok (walk_loop S (max_depth U) True wnames p current_depth []) (\<lambda>(p', new_depth, wqids).
     await_ok (put newfid ''realpath'' (ufid_realpath_update (\<lambda>_. p'))) (\<lambda>_.
     await_ok (put newfid ''depth'' (ufid_depth_update (\<lambda>_. new_depth))) (\<lambda>_.
     done_with (RWalk wqids))))))"

section \<open>Attributes\<close>

definition unpfs_rgetattr :: "'w os \<Rightarrow> ufid \<Rightarrow> u64 \<Rightarrow> ('w, fcall) unpfs_call" where
  "unpfs_rgetattr S f req_mask =
     await_ok (with_realpath f (\<lambda>p. host (io_call (os_symlink_metadata S p)))) (\<lambda>attr.
     done_with (RGetAttr req_mask (qid_from_attr attr) (Stat_from_Metadata attr)))"

definition mask_contains :: "u32 \<Rightarrow> u32 \<Rightarrow> bool" where
  "mask_contains valid flag \<longleftrightarrow> valid AND flag = flag"

definition mask_intersects :: "u32 \<Rightarrow> u32 \<Rightarrow> bool" where
  "mask_intersects valid flags \<longleftrightarrow> valid AND flags \<noteq> 0"

definition file_time :: "Time \<Rightarrow> FileTime" where
  "file_time t = \<lparr>ft_seconds = time_sec t, ft_nanos = ucast (time_nsec t)\<rparr>"

text \<open>The result of setting the times is thrown away (\<^verbatim>\<open>let _ =\<close>).\<close>

definition ignoring_errors :: "('w, unit) unpfs_call \<Rightarrow> ('w, unit) unpfs_call" where
  "ignoring_errors op = await op (\<lambda>_. done_with ())"

definition set_times :: "'w os \<Rightarrow> path \<Rightarrow> u32 \<Rightarrow> SetAttr \<Rightarrow> ('w, unit) unpfs_call" where
  "set_times S p valid stat =
     await_ok (host (io_call (os_metadata S p))) (\<lambda>attr.
     let atime = (if mask_contains valid SetAttrMask_ATIME_SET then file_time (sattr_atime stat)
                  else last_access_time S attr);
         mtime = (if mask_contains valid SetAttrMask_MTIME_SET then file_time (sattr_mtime stat)
                  else last_modification_time S attr)
     in ignoring_errors (host (io_call (os_set_file_times S p atime mtime))))"

definition unpfs_rsetattr :: "'w os \<Rightarrow> ufid \<Rightarrow> u32 \<Rightarrow> SetAttr \<Rightarrow> ('w, fcall) unpfs_call" where
  "unpfs_rsetattr S f valid stat =
     await_ok (get f ''realpath'' ufid_realpath) (\<lambda>p.
     await_ok (when_set (mask_contains valid SetAttrMask_MODE)
       (host (io_call (os_set_permissions S p (sattr_mode stat))))) (\<lambda>_.
     await_ok (when_set (mask_intersects valid (SetAttrMask_UID OR SetAttrMask_GID))
       (host (nix_call (os_chown S p
          (if mask_contains valid SetAttrMask_UID then Some (sattr_uid stat) else None)
          (if mask_contains valid SetAttrMask_GID then Some (sattr_gid stat) else None))))) (\<lambda>_.
     await_ok (when_set (mask_contains valid SetAttrMask_SIZE)
       (await_ok (host (io_call (os_open_write S p))) (\<lambda>h.
        host (io_call (os_set_len S h (sattr_size stat)))))) (\<lambda>_.
     await_ok (when_set (mask_intersects valid (SetAttrMask_ATIME_SET OR SetAttrMask_MTIME_SET))
       (set_times S p valid stat)) (\<lambda>_.
     done_with RSetAttr)))))"

definition unpfs_rreadlink :: "'w os \<Rightarrow> ufid \<Rightarrow> ('w, fcall) unpfs_call" where
  "unpfs_rreadlink S f =
     await_ok (with_realpath f (\<lambda>p. host (io_call (os_read_link S p)))) (\<lambda>link.
     done_with (RReadLink (to_string_lossy link)))"

section \<open>Reading a directory\<close>

text \<open>The loop over the stream, with the index \<open>i\<close> of the entry at its head.\<close>

fun readdir_loop ::
  "'w os \<Rightarrow> u32 \<Rightarrow> (io_error + entry) list \<Rightarrow> nat \<Rightarrow> DirEntryData \<Rightarrow> ('w, DirEntryData) unpfs_call" where
  "readdir_loop S cnt [] i dirents = done_with dirents"
| "readdir_loop S cnt (Inl e # entries) i dirents = Ready (Inl (error_from_io e))"
| "readdir_loop S cnt (Inr en # entries) i dirents =
     await_ok (host (get_dirent S en (2 + of_nat i))) (\<lambda>dirent.
     if DirEntryData_size dirents + DirEntry_size dirent > cnt then done_with dirents
     else readdir_loop S cnt entries (i + 1) (DirEntryData_push dirents dirent))"

definition unpfs_rreaddir :: "'w os \<Rightarrow> ufid \<Rightarrow> u64 \<Rightarrow> u32 \<Rightarrow> ('w, fcall) unpfs_call" where
  "unpfs_rreaddir S f off cnt =
     await_ok
       (if off = 0 then
          await_ok (host (get_dirent_from S (ascii ''.'') 0)) (\<lambda>dot.
          await_ok (host (get_dirent_from S (ascii ''..'') 1)) (\<lambda>dotdot.
          done_with (DirEntryData_push (DirEntryData_push DirEntryData_new dot) dotdot, off)))
        else done_with (DirEntryData_new, off - 1)) (\<lambda>(dirents, offset).
     await_ok (with_realpath f (\<lambda>p. host (io_call (os_read_dir S p)))) (\<lambda>entries.
     await_ok (readdir_loop S cnt (drop (unat offset) entries) (unat offset) dirents) (\<lambda>data.
     done_with (RReadDir data))))"

section \<open>Files\<close>

definition UNIX_FLAGS :: "'w os \<Rightarrow> u32" where
  "UNIX_FLAGS S = O_WRONLY S OR O_RDONLY S OR O_RDWR S OR O_CREAT S OR O_TRUNC S"

text \<open>\<^verbatim>\<open>INVALID_FID!()\<close>.\<close>

definition invalid_fid :: error where
  "invalid_fid = error_from_io (Custom InvalidInput ''Invalid fid'')"

definition unpfs_rlopen :: "'w os \<Rightarrow> ufid \<Rightarrow> u32 \<Rightarrow> ('w, fcall) unpfs_call" where
  "unpfs_rlopen S f flags =
     await_ok (get f ''realpath'' ufid_realpath) (\<lambda>p.
     await_ok (host (get_qid S p)) (\<lambda>qid.
     await_ok (when_set (qid_typ qid AND QIdType_DIR \<noteq> QIdType_DIR)
       (await_ok (host (nix_call (os_open S p (oflag_truncate S (flags AND UNIX_FLAGS S)) (mode_truncate S 0)))) (\<lambda>h.
        put f ''file'' (ufid_file_update (\<lambda>_. Some h))))) (\<lambda>_.
     done_with (RlOpen qid 0))))"

definition unpfs_rlcreate ::
  "'w os \<Rightarrow> ufid \<Rightarrow> rstring \<Rightarrow> u32 \<Rightarrow> u32 \<Rightarrow> u32 \<Rightarrow> ('w, fcall) unpfs_call" where
  "unpfs_rlcreate S f name flags mode gid =
     await_ok (get f ''realpath'' ufid_realpath) (\<lambda>p0.
     let p = path_join p0 name in
     await_ok (host (nix_call (os_open S p (oflag_truncate S (flags AND UNIX_FLAGS S)) (mode_truncate S mode)))) (\<lambda>h.
     await_ok (host (get_qid S p)) (\<lambda>qid.
     await_ok (put f ''realpath'' (ufid_realpath_update (\<lambda>_. p))) (\<lambda>_.
     await_ok (put f ''file'' (ufid_file_update (\<lambda>_. Some h))) (\<lambda>_.
     done_with (RlCreate qid 0))))))"

text \<open>The open file of a fid, and a section that keeps its lock while the file is used.\<close>

definition file_of :: "ufid \<Rightarrow> ('w, fd) unpfs_piece" where
  "file_of f =
     and_then (peek f ufid_file) (\<lambda>file. case file of None \<Rightarrow> fail invalid_fid | Some h \<Rightarrow> ok h)"

abbreviation with_file :: "ufid \<Rightarrow> (fd \<Rightarrow> ('w, 'a) unpfs_call) \<Rightarrow> ('w, 'a) unpfs_call" where
  "with_file f k \<equiv> under (Exclusive (fid_aux f, ''file'')) (file_of f) k"

definition unpfs_rread :: "'w os \<Rightarrow> ufid \<Rightarrow> u64 \<Rightarrow> u32 \<Rightarrow> ('w, fcall) unpfs_call" where
  "unpfs_rread S f offset cnt =
     await_ok (with_file f (\<lambda>h.
        await_ok (host (io_call (os_seek S h offset))) (\<lambda>_.
        host (io_call (os_read S h (unat cnt)))))) (\<lambda>buf.
     done_with (RRead (Data buf)))"

definition data_bytes :: "Data \<Rightarrow> bytes" where
  "data_bytes d = (case d of Data b \<Rightarrow> b)"

definition unpfs_rwrite :: "'w os \<Rightarrow> ufid \<Rightarrow> u64 \<Rightarrow> Data \<Rightarrow> ('w, fcall) unpfs_call" where
  "unpfs_rwrite S f offset data =
     await_ok (with_file f (\<lambda>h.
        await_ok (host (io_call (os_seek S h offset))) (\<lambda>_.
        host (io_call (os_write S h (data_bytes data)))))) (\<lambda>n.
     done_with (RWrite (of_nat n)))"

definition unpfs_rfsync :: "'w os \<Rightarrow> ufid \<Rightarrow> ('w, fcall) unpfs_call" where
  "unpfs_rfsync S f =
     await_ok (with_file f (\<lambda>h. host (io_call (os_sync_all S h)))) (\<lambda>_.
     done_with RFSync)"

section \<open>Names\<close>

definition unpfs_rmkdir :: "'w os \<Rightarrow> ufid \<Rightarrow> rstring \<Rightarrow> u32 \<Rightarrow> u32 \<Rightarrow> ('w, fcall) unpfs_call" where
  "unpfs_rmkdir S dfid name mode gid =
     await_ok (get dfid ''realpath'' ufid_realpath) (\<lambda>p0.
     let p = path_join p0 name in
     await_ok (host (io_call (os_create_dir S p))) (\<lambda>_.
     await_ok (host (get_qid S p)) (\<lambda>qid.
     done_with (RMkDir qid))))"

definition unpfs_rrenameat ::
  "'w os \<Rightarrow> ufid \<Rightarrow> rstring \<Rightarrow> ufid \<Rightarrow> rstring \<Rightarrow> ('w, fcall) unpfs_call" where
  "unpfs_rrenameat S olddir oldname newdir newname =
     await_ok (get olddir ''realpath'' ufid_realpath) (\<lambda>p.
     await_ok (get newdir ''realpath'' ufid_realpath) (\<lambda>q.
     await_ok (host (io_call (os_rename S (path_join p oldname) (path_join q newname)))) (\<lambda>_.
     done_with RRenameAt)))"

definition unpfs_runlinkat :: "'w os \<Rightarrow> ufid \<Rightarrow> rstring \<Rightarrow> u32 \<Rightarrow> ('w, fcall) unpfs_call" where
  "unpfs_runlinkat S dirfid name flags =
     await_ok (get dirfid ''realpath'' ufid_realpath) (\<lambda>p0.
     let p = path_join p0 name in
     await_ok (host (io_call (os_symlink_metadata S p))) (\<lambda>attr.
     await_ok (if md_is_dir attr then host (io_call (os_remove_dir S p))
               else host (io_call (os_remove_file S p))) (\<lambda>_.
     done_with RUnlinkAt)))"

definition unpfs_rclunk :: "ufid \<Rightarrow> ('w, fcall) unpfs_call" where
  "unpfs_rclunk f = done_with RClunk"

definition unpfs_rstatfs :: "'w os \<Rightarrow> ufid \<Rightarrow> ('w, fcall) unpfs_call" where
  "unpfs_rstatfs S f =
     await_ok (get f ''realpath'' ufid_realpath) (\<lambda>p.
     await_ok (host (nix_call (os_statvfs S p))) (\<lambda>buf.
     done_with (RStatFs (StatFs_from_Statvfs buf))))"

section \<open>The filesystem\<close>

text \<open>The methods it does not define are those of the trait.\<close>

definition unpfs :: "'w os \<Rightarrow> Unpfs \<Rightarrow> (nat, 'w unpfs_state) concurrent_fs" where
  "unpfs S U =
     (default_filesystem Ready unpfs_default)
       \<lparr>rattach := unpfs_rattach S U,
        rwalk := unpfs_rwalk S U,
        rgetattr := unpfs_rgetattr S,
        rsetattr := unpfs_rsetattr S,
        rreadlink := unpfs_rreadlink S,
        rreaddir := unpfs_rreaddir S,
        rlopen := unpfs_rlopen S,
        rlcreate := unpfs_rlcreate S,
        rread := unpfs_rread S,
        rwrite := unpfs_rwrite S,
        rmkdir := unpfs_rmkdir S,
        rrenameat := unpfs_rrenameat S,
        runlinkat := unpfs_runlinkat S,
        rfsync := unpfs_rfsync S,
        rclunk := unpfs_rclunk,
        rstatfs := unpfs_rstatfs S\<rparr>"

lemma unpfs_simps [simp]:
  "fs_default (unpfs S U) = unpfs_default" "rattach (unpfs S U) = unpfs_rattach S U"
  "rwalk (unpfs S U) = unpfs_rwalk S U" "rgetattr (unpfs S U) = unpfs_rgetattr S"
  "rsetattr (unpfs S U) = unpfs_rsetattr S" "rreadlink (unpfs S U) = unpfs_rreadlink S"
  "rreaddir (unpfs S U) = unpfs_rreaddir S" "rlopen (unpfs S U) = unpfs_rlopen S"
  "rlcreate (unpfs S U) = unpfs_rlcreate S" "rread (unpfs S U) = unpfs_rread S"
  "rwrite (unpfs S U) = unpfs_rwrite S" "rmkdir (unpfs S U) = unpfs_rmkdir S"
  "rrenameat (unpfs S U) = unpfs_rrenameat S" "runlinkat (unpfs S U) = unpfs_runlinkat S"
  "rfsync (unpfs S U) = unpfs_rfsync S" "rclunk (unpfs S U) = unpfs_rclunk"
  "rstatfs (unpfs S U) = unpfs_rstatfs S" "rversion (unpfs S U) = default_rversion Ready"
  "rsymlink (unpfs S U) = (\<lambda>_ _ _ _. unsupported Ready)" "rmknod (unpfs S U) = (\<lambda>_ _ _ _ _ _. unsupported Ready)"
  "rrename (unpfs S U) = (\<lambda>_ _ _. unsupported Ready)" "rxattrwalk (unpfs S U) = (\<lambda>_ _ _. unsupported Ready)"
  "rxattrcreate (unpfs S U) = (\<lambda>_ _ _ _. unsupported Ready)" "rlock (unpfs S U) = (\<lambda>_ _. unsupported Ready)"
  "rgetlock (unpfs S U) = (\<lambda>_ _. unsupported Ready)" "rlink (unpfs S U) = (\<lambda>_ _ _. unsupported Ready)"
  "rauth (unpfs S U) = (\<lambda>_ _ _ _. unsupported Ready)" "rflush (unpfs S U) = (\<lambda>_. unsupported Ready)"
  "rremove (unpfs S U) = (\<lambda>_. unsupported Ready)"
  by (simp_all add: unpfs_def default_filesystem_def)
section \<open>What a method may change\<close>

text \<open>
  While the data of the handles \<open>H\<close> exists and no fid lies deeper than the limit, a piece
  keeps this and changes the data of no handle outside \<open>T\<close>, whatever runs between the pieces.
\<close>

definition shallow :: "nat \<Rightarrow> 'w unpfs_state \<Rightarrow> bool" where
  "shallow limit s \<longleftrightarrow> (\<forall>c \<in> set (up_cells s). ufid_depth c \<le> limit)"

definition made :: "nat \<Rightarrow> 'w unpfs_state \<Rightarrow> bool" where
  "made a s \<longleftrightarrow> a < length (up_cells s)"

definition held :: "nat \<Rightarrow> nat set \<Rightarrow> 'w unpfs_state \<Rightarrow> bool" where
  "held limit H s \<longleftrightarrow> shallow limit s \<and> (\<forall>a \<in> H. made a s)"

definition touching :: "nat set \<Rightarrow> 'w unpfs_state \<Rightarrow> 'w unpfs_state \<Rightarrow> bool" where
  "touching T s s' \<longleftrightarrow>
     length (up_cells s') = length (up_cells s) \<and> (\<forall>a. a \<notin> T \<longrightarrow> up_cells s' ! a = up_cells s ! a)"

abbreviation calm :: "nat \<Rightarrow> nat set \<Rightarrow> nat set \<Rightarrow> ('w, 'a) unpfs_call \<Rightarrow> bool" where
  "calm limit H T \<equiv> steady (held limit H) (touching T) (\<lambda>_. True)"

lemma touching_same: "up_cells s' = up_cells s \<Longrightarrow> touching T s s'"
  by (simp add: touching_def)

lemma held_same: "up_cells s' = up_cells s \<Longrightarrow> held limit H s' = held limit H s"
  by (simp add: held_def shallow_def made_def)

lemma held_cell: "held limit H s \<Longrightarrow> fid_aux f \<in> H \<Longrightarrow> ufid_depth (cell f s) \<le> limit"
  by (auto simp: held_def shallow_def made_def cell_def)

text \<open>Pieces that only look at the data.\<close>

definition looks :: "('w, 'a) unpfs_piece \<Rightarrow> bool" where
  "looks c \<longleftrightarrow> (\<forall>s. up_cells (snd (c s)) = up_cells s)"

lemma looks_pieces:
  "looks (peek f sel)" "looks (sys op)" "looks (ok x)" "looks (fail e)"
  by (simp_all add: looks_def peek_def sys_def ok_def fail_def split: prod.splits)

lemma looks_and_then:
  assumes "looks c" and "\<And>x. looks (k x)"
  shows "looks (and_then c k)"
  unfolding looks_def
proof
  fix s
  obtain r s' where r: "c s = (r, s')" by fastforce
  have "up_cells (snd (c s)) = up_cells s" "\<And>x. up_cells (snd (k x s')) = up_cells s'"
    using assms by (simp_all add: looks_def)
  then show "up_cells (snd (and_then c k s)) = up_cells s"
    using r by (simp add: and_then_def split: sum.splits)
qed

lemma looks_file_of: "looks (file_of f)"
  by (simp add: looks_def file_of_def and_then_def peek_def ok_def fail_def split: option.splits)

named_theorems calm_intros "calls that change only the data they may"

lemma calm_looks [calm_intros]: "looks c \<Longrightarrow> calm limit H T (one_piece w c)"
  unfolding looks_def
  by (rule steady_piece) (blast intro: touching_same dest: held_same [THEN iffD2])

lemma calm_ready [calm_intros]: "calm limit H T (Ready x)"
  by simp

lemma calm_put [calm_intros]:
  assumes "fid_aux f \<in> H" and "fid_aux f \<in> T" and "\<And>c. ufid_depth c \<le> limit \<Longrightarrow> ufid_depth (upd c) \<le> limit"
  shows "calm limit H T (put f fld upd)"
proof (rule steady_piece)
  fix s :: "'a unpfs_state" assume s: "held limit H s"
  then have "shallow limit (snd (poke f upd s))"
    using assms held_cell [OF s assms(1)]
    by (auto simp: poke_def held_def shallow_def dest: set_update_subset_insert [THEN subsetD])
  moreover have "a \<notin> T \<Longrightarrow> (up_cells s)[fid_aux f := c] ! a = up_cells s ! a" for a c
    using assms(2) by (metis nth_list_update_neq)
  ultimately show "held limit H (snd (poke f upd s)) \<and> touching T s (snd (poke f upd s)) \<and> True"
    using s by (simp add: held_def made_def touching_def poke_def)
qed

lemma calm_await_ok [calm_intros]:
  "calm limit H T p \<Longrightarrow> (\<And>x. calm limit H T (k x)) \<Longrightarrow> calm limit H T (await_ok p k)"
  by (rule steady_await_ok [where P = "\<lambda>_. True"]) (auto elim: steady_mono split: sum.splits)

lemma calm_under [calm_intros]:
  "looks c \<Longrightarrow> (\<And>x. calm limit H T (k x)) \<Longrightarrow> calm limit H T (under a c k)"
  unfolding under_def by (rule calm_await_ok [OF calm_looks]) simp_all

lemma calm_await [calm_intros]:
  "calm limit H T p \<Longrightarrow> (\<And>x. calm limit H T (k x)) \<Longrightarrow> calm limit H T (await p k)"
  by (rule steady_await)

lemma calm_if [calm_intros]:
  "(b \<Longrightarrow> calm limit H T p) \<Longrightarrow> (\<not> b \<Longrightarrow> calm limit H T q) \<Longrightarrow> calm limit H T (if b then p else q)"
  by simp

lemma calm_case_prod [calm_intros]:
  "(\<And>x y. calm limit H T (k x y)) \<Longrightarrow> calm limit H T (case p of (x, y) \<Rightarrow> k x y)"
  by (simp split: prod.splits)

lemma calm_Let [calm_intros]: "calm limit H T (k x) \<Longrightarrow> calm limit H T (let y = x in k y)"
  by simp

lemma calm_when_set [calm_intros]: "calm limit H T op \<Longrightarrow> calm limit H T (when_set b op)"
  by (simp add: when_set_def)

lemma calm_ignoring_errors [calm_intros]: "calm limit H T op \<Longrightarrow> calm limit H T (ignoring_errors op)"
  unfolding ignoring_errors_def by (intro calm_intros)

lemmas looks_intros = looks_pieces looks_and_then looks_file_of

lemma calm_readdir_loop [calm_intros]: "calm limit H T (readdir_loop S cnt es i d)"
proof (induction S cnt es i d rule: readdir_loop.induct)
  case (3 S cnt en es i d)
  then show ?case
    by (simp del: if_split) (intro calm_intros looks_intros; simp)
qed simp_all

lemma step_depth_le: "step_depth limit d name = Some d' \<Longrightarrow> d \<le> limit \<Longrightarrow> d' \<le> limit"
  by (auto simp: step_depth_def split: if_splits)

lemma walk_loop_steady:
  "d \<le> limit \<Longrightarrow>
   steady (held limit H) (touching T)
     (\<lambda>r. case r of Inl e \<Rightarrow> True | Inr (p', d', qs') \<Rightarrow> d' \<le> limit) (walk_loop S limit first names p d qs)"
proof (induction names arbitrary: first p d qs)
  case (Cons name names)
  show ?case
  proof (cases "step_depth limit d name")
    case (Some d')
    then have "d' \<le> limit" using Cons.prems by (rule step_depth_le)
    with Some Cons.IH show ?thesis
      by (simp, intro steady_await [OF calm_looks [OF looks_pieces(2)]]) (simp split: sum.splits)
  qed simp
qed simp

lemma calm_rwalk:
  assumes "fid_aux f \<in> H" and "fid_aux newfid \<in> H" and "fid_aux newfid \<in> T"
  shows "calm (max_depth U) H T (unpfs_rwalk S U f newfid names)"
proof -
  have depth: "steady (held (max_depth U) H) (touching T)
      (\<lambda>r. case r of Inl e \<Rightarrow> True | Inr d \<Rightarrow> d \<le> max_depth U) (get f ''depth'' ufid_depth)"
    by (rule steady_piece) (simp add: peek_def held_cell [OF _ assms(1)] touching_def)
  have rest: "calm (max_depth U) H T
      (await_ok (walk_loop S (max_depth U) True names p d []) (\<lambda>(p', new_depth, wqids).
       await_ok (put newfid ''realpath'' (ufid_realpath_update (\<lambda>_. p'))) (\<lambda>_.
       await_ok (put newfid ''depth'' (ufid_depth_update (\<lambda>_. new_depth))) (\<lambda>_.
       done_with (RWalk wqids)))))" if "d \<le> max_depth U" for p d
  proof (rule steady_await_ok [where P = "\<lambda>(p', d', qs). d' \<le> max_depth U"])
    show "steady (held (max_depth U) H) (touching T)
      (\<lambda>r. case r of Inl e \<Rightarrow> True | Inr x \<Rightarrow> case x of (p', d', qs) \<Rightarrow> d' \<le> max_depth U)
      (walk_loop S (max_depth U) True names p d [])"
      by (rule walk_loop_steady [OF that])
  next
    fix x :: "path \<times> nat \<times> QId list"
    assume "case x of (p', d', qs) \<Rightarrow> d' \<le> max_depth U"
    then show "calm (max_depth U) H T (case x of (p', new_depth, wqids) \<Rightarrow>
       await_ok (put newfid ''realpath'' (ufid_realpath_update (\<lambda>_. p'))) (\<lambda>_.
       await_ok (put newfid ''depth'' (ufid_depth_update (\<lambda>_. new_depth))) (\<lambda>_.
       done_with (RWalk wqids))))"
      by (cases x) (auto intro!: calm_await_ok calm_put calm_ready simp: assms)
  qed
  show ?thesis
    unfolding unpfs_rwalk_def
  proof (rule calm_await_ok [OF calm_looks [OF looks_pieces(1)]], rule steady_await_ok)
    show "steady (held (max_depth U) H) (touching T)
      (\<lambda>r. case r of Inl e \<Rightarrow> True | Inr d \<Rightarrow> d \<le> max_depth U) (get f ''depth'' ufid_depth)"
      by (rule depth)
  qed (rule rest)
qed

lemmas method_defs =
  unpfs_rattach_def unpfs_rwalk_def unpfs_rgetattr_def unpfs_rsetattr_def unpfs_rreadlink_def
  unpfs_rreaddir_def unpfs_rlopen_def unpfs_rlcreate_def unpfs_rread_def unpfs_rwrite_def
  unpfs_rmkdir_def unpfs_rrenameat_def unpfs_runlinkat_def unpfs_rfsync_def unpfs_rclunk_def
  unpfs_rstatfs_def default_rversion_def unsupported_def set_times_def

text \<open>The other methods, one by one.\<close>

lemma calm_methods:
  "calm limit H T (unpfs_rgetattr S f m)"
  "calm limit H T (unpfs_rsetattr S f v st)"
  "calm limit H T (unpfs_rreadlink S f)"
  "calm limit H T (unpfs_rreaddir S f off c)"
  "calm limit H T (unpfs_rread S f off c)"
  "calm limit H T (unpfs_rwrite S f off d)"
  "calm limit H T (unpfs_rmkdir S f name mode gid)"
  "calm limit H T (unpfs_rrenameat S f name f' name')"
  "calm limit H T (unpfs_runlinkat S f name fl)"
  "calm limit H T (unpfs_rfsync S f)"
  "calm limit H T (unpfs_rclunk f)"
  "calm limit H T (unpfs_rstatfs S f)"
  "calm limit H T (default_rversion Ready msize ver)"
  "calm limit H T (unsupported Ready)"
  unfolding method_defs
  by (intro calm_intros looks_intros)+

lemma calm_binding_methods:
  "fid_aux f \<in> H \<Longrightarrow> fid_aux f \<in> T \<Longrightarrow> calm limit H T (unpfs_rattach S U f afid uname aname n)"
  "fid_aux f \<in> H \<Longrightarrow> fid_aux f \<in> T \<Longrightarrow> calm limit H T (unpfs_rlopen S f fl)"
  "fid_aux f \<in> H \<Longrightarrow> fid_aux f \<in> T \<Longrightarrow> calm limit H T (unpfs_rlcreate S f name fl mode gid)"
  unfolding method_defs
  by (intro calm_intros looks_intros; simp)+

text \<open>
  The handles a request rebinds: opening and creating that of its fid, attaching and walking
  that of the new fid; no other request changes the data of a fid.
\<close>

definition rebinds :: "nat fid_table \<Rightarrow> ufid option \<Rightarrow> fcall \<Rightarrow> nat set" where
  "rebinds fids newfid body =
     fid_aux ` (case body of
        TlOpen fid _ \<Rightarrow> set_option (fids fid)
      | TlCreate fid _ _ _ _ \<Rightarrow> set_option (fids fid)
      | TAttach _ _ _ _ _ \<Rightarrow> set_option newfid
      | TWalk _ _ _ \<Rightarrow> set_option newfid
      | _ \<Rightarrow> {})"

lemma handles_intros:
  "fids k = Some f \<Longrightarrow> fid_aux f \<in> handles fids newfid"
  "fid_aux f \<in> handles fids (Some f)"
  by (auto simp: handles_def ran_def)

lemma unpfs_calm:
  assumes "route (unpfs S U) fids newfid body = Inr fut"
  shows "calm (max_depth U) (handles fids newfid) (rebinds fids newfid body) fut"
  using assms
  by (cases body)
    (auto simp: route_def or_return_eq_Inr get_fid_Inr get_newfid_def rebinds_def
      split: option.splits
      intro!: calm_methods calm_binding_methods calm_rwalk intro: handles_intros)

section \<open>The contract of the server\<close>

lemma calm_steady:
  fixes fut :: "('w, 'a) unpfs_call"
  assumes "calm limit H T fut"
  shows "steady (\<lambda>s. shallow limit s \<and> (\<forall>a \<in> H. made a s)) (\<lambda>s s'. \<forall>b. made b s \<longrightarrow> made b s') (\<lambda>_. True) fut"
  using assms by (induction fut) (auto simp: held_def touching_def made_def)

lemma unpfs_contract: "filesystem_contract (unpfs S U) (shallow (max_depth U)) made"
proof unfold_locales
  fix s a s'
  assume "fs_default (unpfs S U) s = (a, s')" and "shallow (max_depth U) s"
  then show "shallow (max_depth U) s'" by (auto simp: unpfs_default_def shallow_def new_cell_def)
next
  fix s a s' b
  assume "fs_default (unpfs S U) s = (a, s')"
  then show "made a s' \<and> (made b s \<longrightarrow> made b s')" by (auto simp: unpfs_default_def made_def)
next
  fix fids newfid body fut
  assume "route (unpfs S U) fids newfid body = Inr fut"
  then show "steady (\<lambda>s. shallow (max_depth U) s \<and> (\<forall>a \<in> handles fids newfid. made a s))
    (\<lambda>s s'. \<forall>b. made b s \<longrightarrow> made b s') (\<lambda>_. True) fut"
    by (rule calm_steady [OF unpfs_calm])
qed

interpretation served: filesystem_contract "unpfs S U" "shallow (max_depth U)" made for S :: "'w os" and U
  by (rule unpfs_contract)

section \<open>One lock at a time\<close>

text \<open>
  No method waits for a lock inside a section that holds one: what follows in the section
  are calls of the host.
\<close>

lemma tidy_when_set [tidy_intros]: "tidy op \<Longrightarrow> tidy (when_set b op)"
  by (simp add: when_set_def tidy_ready)

lemma tidy_ignoring_errors [tidy_intros]: "tidy op \<Longrightarrow> tidy (ignoring_errors op)"
  unfolding ignoring_errors_def by (intro tidy_intros)

lemma lockless_host [tidy_intros]: "lockless (host op)"
  by simp

lemma lockless_then [tidy_intros]:
  "lockless p \<Longrightarrow> (\<And>x. lockless (k x)) \<Longrightarrow> lockless (await_ok p k)"
  by (rule lockless_await_ok)

lemma tidy_walk_loop [tidy_intros]: "tidy (walk_loop S limit first names p d qs)"
proof (induction names arbitrary: first p d qs)
  case Nil
  show ?case by (simp add: tidy_ready)
next
  case (Cons name names)
  then show ?case
    by (auto intro!: tidy_intros split: option.splits sum.splits)
qed

lemma tidy_readdir_loop [tidy_intros]: "tidy (readdir_loop S cnt es i d)"
proof (induction S cnt es i d rule: readdir_loop.induct)
  case (3 S cnt en es i d)
  then show ?case by (simp del: if_split) (intro tidy_intros; simp)
qed (simp_all add: tidy_ready)

lemma unpfs_tidy:
  assumes "route (unpfs S U) fids newfid body = Inr fut"
  shows "tidy fut"
  using assms
  by (cases body)
    (auto simp: route_def or_return_eq_Inr get_newfid_def method_defs split: option.splits simp del: if_split
      intro!: tidy_intros)

interpretation disciplined: lock_discipline "unpfs S U" for S :: "'w os" and U
  by (rule lock_disciplineI [OF unpfs_tidy])

end
