(* ===== verification/Export.thy ===== *)
theory Export
  imports Unpfs
begin

unbundle bit_operations_syntax

text \<open>
  The properties of \<^verbatim>\<open>unpfs\<close>: what a walk does to its new fid, what keeps it inside the
  limit and what does not keep it inside the exported directory, how a directory is read
  page by page, and what opening, reading and writing need. Where a property is about a
  host that does not change under the server, its hypothesis is that the call concerned is
  a function of its arguments.
\<close>

section \<open>A host for the witnesses\<close>

text \<open>\<^verbatim>\<open>/srv\<close> with a directory \<^verbatim>\<open>a\<close> and a file \<^verbatim>\<open>a/b\<close>, and the directory \<^verbatim>\<open>/etc\<close>.\<close>

definition sample_metadata :: "bool \<Rightarrow> u64 \<Rightarrow> Metadata" where
  "sample_metadata dir ino =
     \<lparr>md_is_dir = dir, md_is_symlink = False, md_ino = ino, md_mode = 0, md_uid = 0, md_gid = 0,
      md_nlink = 1, md_rdev = 0, md_size = 0, md_blksize = 0, md_blocks = 0, md_atime = 0,
      md_atime_nsec = 0, md_mtime = 0, md_mtime_nsec = 0, md_ctime = 0, md_ctime_nsec = 0\<rparr>"

definition sample_stat :: "path \<Rightarrow> io_error + Metadata" where
  "sample_stat p =
     (if p = ascii ''/srv'' then Inr (sample_metadata True 1)
      else if p = ascii ''/srv/a'' then Inr (sample_metadata True 2)
      else if p = ascii ''/srv/a/b'' then Inr (sample_metadata False 3)
      else if p = ascii ''/etc'' then Inr (sample_metadata True 4)
      else if p = ascii ''.'' then Inr (sample_metadata True 5)
      else if p = ascii ''..'' then Inr (sample_metadata True 6)
      else Inl (Os 2))"

definition sample_entry :: "string \<Rightarrow> entry" where
  "sample_entry n = \<lparr>entry_path = ascii (''/srv/'' @ n), entry_name = ascii n\<rparr>"

definition sample_os :: "unit os" where
  "sample_os =
     \<lparr>O_WRONLY = 1, O_RDONLY = 0, O_RDWR = 2, O_CREAT = 64, O_TRUNC = 512,
      oflag_truncate = id, mode_truncate = id,
      last_access_time = (\<lambda>_. \<lparr>ft_seconds = 0, ft_nanos = 0\<rparr>),
      last_modification_time = (\<lambda>_. \<lparr>ft_seconds = 0, ft_nanos = 0\<rparr>),
      os_symlink_metadata = (\<lambda>p w. (sample_stat p, w)),
      os_metadata = (\<lambda>p w. (sample_stat p, w)),
      os_entry_metadata = (\<lambda>e w. (Inr (sample_metadata False 9), w)),
      os_set_permissions = (\<lambda>_ _. ok ()),
      os_chown = (\<lambda>_ _ _. ok ()),
      os_open_write = (\<lambda>_. ok 3),
      os_set_len = (\<lambda>_ _. ok ()),
      os_set_file_times = (\<lambda>_ _ _. fail (Os 13)),
      os_read_link = (\<lambda>_. fail (Os 22)),
      os_read_dir = (\<lambda>_ w. (Inr (map Inr [sample_entry ''x'', sample_entry ''yy'', sample_entry ''zzz'']), w)),
      os_open = (\<lambda>_ _ _. ok 3),
      os_seek = (\<lambda>_ _. ok ()),
      os_read = (\<lambda>_ n. ok (take n [1, 2, 3])),
      os_write = (\<lambda>_ bs. ok (length bs)),
      os_sync_all = (\<lambda>_. ok ()),
      os_create_dir = (\<lambda>_. ok ()),
      os_rename = (\<lambda>_ _. ok ()),
      os_remove_dir = (\<lambda>_. ok ()),
      os_remove_file = (\<lambda>_. ok ()),
      os_statvfs = (\<lambda>_. fail EIO),
      os_try_exists = (\<lambda>p w. (Inr (\<not> isl (sample_stat p)), w)),
      os_create_dir_all = (\<lambda>_. fail (Os 30))\<rparr>"

definition sample_unpfs :: Unpfs where
  "sample_unpfs = \<lparr>realroot = ascii ''/srv'', max_depth = 2\<rparr>"

text \<open>Fid 1 is at the root of the export, fid 2 is new.\<close>

definition sample_root :: ufid where "sample_root = \<lparr>fid_num = 1, fid_aux = 0\<rparr>"
definition sample_new :: ufid where "sample_new = \<lparr>fid_num = 2, fid_aux = 1\<rparr>"

definition sample_state :: "unit unpfs_state" where
  "sample_state =
     \<lparr>up_cells = [\<lparr>ufid_realpath = ascii ''/srv'', ufid_file = None, ufid_depth = 0\<rparr>, new_cell], up_os = ()\<rparr>"

section \<open>A server for the witnesses\<close>

definition unpfs_env :: "(nat, unit unpfs_state) env" where
  "unpfs_env =
     \<lparr>env_fs = unpfs sample_os sample_unpfs, env_crates = documented_crates, env_nix = linux_nix,
      env_buffer = growing, env_codec = documented_codec\<rparr>"

lemma unpfs_env_disciplined: "lock_discipline (env_fs unpfs_env)"
  by (simp add: unpfs_env_def disciplined.lock_discipline_axioms)

definition no_cells :: "unit unpfs_state" where
  "no_cells = \<lparr>up_cells = [], up_os = ()\<rparr>"

text \<open>A client attaches to any state, and its request is handled.\<close>

lemma unpfs_attached_first:
  fixes s :: "unit unpfs_state"
  shows "\<exists>c r. (conn_step unpfs_env False)\<^sup>*\<^sup>* (conn_start (Inr (wire_Msg sample_attach) # rest) s) c \<and>
     srv_fids (conn_server c) 5 = Some \<lparr>fid_num = 5, fid_aux = length (up_cells s)\<rparr> \<and>
     conn_tasks c = [(sample_attach, Responding r)] \<and> conn_input c = rest \<and> conn_result c = None"
proof -
  let ?c0 = "conn_start (Inr (wire_Msg sample_attach) # rest) s :: (nat, unit unpfs_state) conn"
  let ?c1 = "?c0\<lparr>conn_input := rest, conn_tasks := [(sample_attach, Spawned)]\<rparr>"
  let ?f = "\<lparr>fid_num = 5, fid_aux = length (up_cells s)\<rparr>"
  have E: "env_fs unpfs_env = unpfs sample_os sample_unpfs" "env_crates unpfs_env = documented_crates"
    by (simp_all add: unpfs_env_def)
  have "read_msg documented_crates (wire_Msg sample_attach) = (Inr sample_attach, [])"
    using documented.decode_Msg_wire [OF sample_attach_carried, of "[]"] by (simp add: read_msg_def)
  then have r1: "conn_step unpfs_env False ?c0 ?c1"
    by (intro conn_step.receive) (simp add: receive_def conn_start_def E)
  obtain res sv' where
    d: "dispatch_once (map_filesystem run (env_fs unpfs_env)) sample_attach (conn_server ?c1) = (res, sv')"
    by fastforce
  then have "srv_fids sv' 5 = Some ?f"
    by (auto simp: E dispatch_once_def make_newfid_def newfid_of_def sample_attach_def run_method_def
        route_def get_newfid_def unpfs_default_def conn_start_def unpfs_rattach_def
        map_filesystem_def and_then_def poke_def sys_def get_qid_def converting_def sample_os_def
        sample_stat_def sample_unpfs_def ascii_def ok_def insert_newfid_def drop_clunked_def)
  then have "srv_fids (conn_server (task_at ?c1 0 sample_attach (Responding r) sv')) 5 = Some ?f \<and>
      conn_tasks (task_at ?c1 0 sample_attach (Responding r) sv') = [(sample_attach, Responding r)] \<and>
      conn_input (task_at ?c1 0 sample_attach (Responding r) sv') = rest \<and>
      conn_result (task_at ?c1 0 sample_attach (Responding r) sv') = None" for r
    by (simp add: task_at_def conn_start_def)
  moreover have "(conn_step unpfs_env False)\<^sup>*\<^sup>* ?c1
      (task_at ?c1 0 sample_attach (Responding (response_of (env_nix unpfs_env) res)) sv')"
    by (rule undisturbed_task [OF _ _ _ _ d]) (simp_all add: table_read_def unpfs_env_disciplined)
  ultimately show ?thesis
    using converse_rtranclp_into_rtranclp [of "conn_step unpfs_env False", OF r1] by blast
qed

lemma unpfs_attached:
  fixes s :: "unit unpfs_state"
  shows "\<exists>c. (conn_step unpfs_env False)\<^sup>*\<^sup>* (conn_start [Inr (wire_Msg sample_attach)] s) c \<and>
     srv_fids (conn_server c) 5 = Some \<lparr>fid_num = 5, fid_aux = length (up_cells s)\<rparr> \<and>
     requests c = [sample_attach] \<and> conn_held c = []"
  using unpfs_attached_first [of "[]" s] by (force simp: requests_def conn_held_def)

section \<open>Which data a request changes\<close>

text \<open>
  C12. A request changes the data of no fid but the one it binds: opening or creating the
  fid it names, attaching or walking its new fid. Every piece of every other method leaves
  the data behind all fids alone, whatever other requests do between the pieces.
\<close>

theorem methods_change_only_the_fid_they_bind:
  assumes "route (unpfs S U) fids newfid body = Inr fut"
  shows "steady (held (max_depth U) (handles fids newfid)) (touching (rebinds fids newfid body))
    (\<lambda>_. True) fut"
  using assms by (rule unpfs_calm)

theorem methods_change_only_the_fid_they_bind_witness:
  "steady (held 2 (handles [1 \<mapsto> sample_root] None)) (touching {}) (\<lambda>_. True)
     (unpfs_rsetattr sample_os sample_root 8 \<lparr>sattr_mode = 0, sattr_uid = 0, sattr_gid = 0, sattr_size = 0,
        sattr_atime = \<lparr>time_sec = 0, time_nsec = 0\<rparr>, sattr_mtime = \<lparr>time_sec = 0, time_nsec = 0\<rparr>\<rparr>)"
  using methods_change_only_the_fid_they_bind [of sample_os sample_unpfs "[1 \<mapsto> sample_root]" None
      "TSetAttr 1 8 \<lparr>sattr_mode = 0, sattr_uid = 0, sattr_gid = 0, sattr_size = 0,
        sattr_atime = \<lparr>time_sec = 0, time_nsec = 0\<rparr>, sattr_mtime = \<lparr>time_sec = 0, time_nsec = 0\<rparr>\<rparr>"]
  by (simp add: route_def get_fid_def rebinds_def sample_unpfs_def)

section \<open>Calls, executed\<close>

lemma sys_and_then [simp]:
  "and_then (sys op) k s =
     (case op (up_os s) of (Inl e, w) \<Rightarrow> (Inl e, s\<lparr>up_os := w\<rparr>) | (Inr x, w) \<Rightarrow> k x (s\<lparr>up_os := w\<rparr>))"
  by (simp add: and_then_def sys_def split: prod.splits sum.splits)

lemma peek_and_then [simp]: "and_then (peek f sel) k s = k (sel (cell f s)) s"
  by (simp add: and_then_def peek_def)

lemma cell_sys [simp]: "cell f (s\<lparr>up_os := w\<rparr>) = cell f s"
  by (simp add: cell_def)

lemma run_case_prod [simp]: "run (case p of (x, y) \<Rightarrow> k x y) = (case p of (x, y) \<Rightarrow> run (k x y))"
  by (simp split: prod.splits)

lemma poke_and_then [simp]:
  "and_then (poke f upd) k s =
     k () (s\<lparr>up_cells := (up_cells s)[fid_aux f := upd (cell f s)]\<rparr>)"
  by (simp add: and_then_def poke_def)

section \<open>Walking\<close>

text \<open>The paths a walk looks at, the path and the depth it ends with.\<close>

primrec walk_paths :: "path \<Rightarrow> rstring list \<Rightarrow> path list" where
  "walk_paths p [] = []"
| "walk_paths p (n # ns) = path_push p n # walk_paths (path_push p n) ns"

definition path_after :: "path \<Rightarrow> rstring list \<Rightarrow> path" where
  "path_after p names = foldl path_push p names"

primrec depth_after :: "nat \<Rightarrow> nat \<Rightarrow> rstring list \<Rightarrow> nat option" where
  "depth_after limit d [] = Some d"
| "depth_after limit d (n # ns) =
     (case step_depth limit d n of None \<Rightarrow> None | Some d' \<Rightarrow> depth_after limit d' ns)"

lemma path_after_simps [simp]:
  "path_after p [] = p" "path_after p (n # ns) = path_after (path_push p n) ns"
  by (simp_all add: path_after_def)

lemma up_os_same [simp]: "s\<lparr>up_os := up_os s\<rparr> = s"
  by (cases s) simp

lemma up_os_unit [simp]: "(s :: unit unpfs_state)\<lparr>up_os := w\<rparr> = s"
  by (cases s) simp

lemma run_walk_loop [simp]:
  "run (walk_loop S limit first [] p d qs) s = (Inr (p, d, qs), s)"
  "run (walk_loop S limit first (name # names) p d qs) s =
     (case step_depth limit d name of
        None \<Rightarrow> (Inl (No ELOOP), s)
      | Some d' \<Rightarrow>
          (case get_qid S (path_push p name) (up_os s) of
             (Inr qid, w) \<Rightarrow>
               run (walk_loop S limit False names (path_push p name) d' (qs @ [qid])) (s\<lparr>up_os := w\<rparr>)
           | (Inl e, w) \<Rightarrow>
               (if first then Inl e else Inr (path_push p name, d', qs), s\<lparr>up_os := w\<rparr>)))"
  by (simp_all add: run_await sys_def ok_def fail_def split: option.splits prod.splits sum.splits)

declare walk_loop.simps [simp del]

lemma get_qid_still:
  "os_symlink_metadata S = (\<lambda>p w. (stat p, w)) \<Longrightarrow>
     get_qid S p w =
       (case stat p of Inl e \<Rightarrow> (Inl (error_from_io e), w) | Inr attr \<Rightarrow> (Inr (qid_from_attr attr), w))"
  by (simp add: get_qid_def and_then_def converting_def ok_def split: sum.splits)

lemma walk_loop_found:
  assumes still: "os_symlink_metadata S = (\<lambda>p w. (stat p, w))"
  shows "map stat (walk_paths p names) = map Inr attrs \<Longrightarrow> depth_after limit d names = Some d' \<Longrightarrow>
    run (walk_loop S limit first (names @ rest) p d qs) s =
      run (walk_loop S limit (first \<and> names = []) rest (path_after p names) d' (qs @ map qid_from_attr attrs)) s"
proof (induction names arbitrary: p attrs d first qs)
  case (Cons name names)
  then obtain a as where attrs: "attrs = a # as" "stat (path_push p name) = Inr a"
    "map stat (walk_paths (path_push p name) names) = map Inr as"
    by (cases attrs) auto
  with Cons.prems(2) Cons.IH [OF attrs(3)] show ?case
    by (auto simp: get_qid_still [OF still] split: option.splits)
qed simp

text \<open>The state after the new fid was set to a path and a depth.\<close>

definition rebound :: "ufid \<Rightarrow> path \<Rightarrow> nat \<Rightarrow> 'w unpfs_state \<Rightarrow> 'w unpfs_state" where
  "rebound f p d s =
     s\<lparr>up_cells := (up_cells s)[fid_aux f := (cell f s)\<lparr>ufid_realpath := p, ufid_depth := d\<rparr>]\<rparr>"

lemma unpfs_rwalk_result:
  assumes "run (walk_loop S (max_depth U) True names (ufid_realpath (cell f s)) (ufid_depth (cell f s)) []) s =
      (Inr (p', d', qids), s)"
    and "fid_aux newfid < length (up_cells s)"
  shows "run (unpfs_rwalk S U f newfid names) s = (Inr (RWalk qids), rebound newfid p' d' s)"
  using assms by (simp add: unpfs_rwalk_def rebound_def cell_def)

lemma unpfs_rwalk_error:
  assumes "run (walk_loop S (max_depth U) True names (ufid_realpath (cell f s)) (ufid_depth (cell f s)) []) s =
      (Inl e, s)"
  shows "run (unpfs_rwalk S U f newfid names) s = (Inl e, s)"
  using assms by (simp add: unpfs_rwalk_def)

text \<open>
  C26. A walk whose names all exist and stay within the limit returns one qid for each name
  and binds the new fid to the path of the last and to the depth the names add up to; the
  fid walked from and every other fid are untouched.
\<close>

theorem walk_to_the_end:
  assumes "os_symlink_metadata S = (\<lambda>p w. (stat p, w))"
    and "map stat (walk_paths (ufid_realpath (cell f s)) names) = map Inr attrs"
    and "depth_after (max_depth U) (ufid_depth (cell f s)) names = Some d"
    and "fid_aux newfid < length (up_cells s)"
  shows "run (unpfs_rwalk S U f newfid names) s =
    (Inr (RWalk (map qid_from_attr attrs)),
     rebound newfid (path_after (ufid_realpath (cell f s)) names) d s)"
  using walk_loop_found [OF assms(1-3), of True "[]" "[]" s] assms(4)
  by (intro unpfs_rwalk_result) simp_all

text \<open>
  C29. When a name after the first does not exist the walk succeeds with the qids found so
  far, but the new fid is bound all the same, and to the path of the missing name: a fid
  that lies on no file.
\<close>

theorem partial_walk_binds_missing_path:
  assumes "os_symlink_metadata S = (\<lambda>p w. (stat p, w))"
    and "map stat (walk_paths (ufid_realpath (cell f s)) found) = map Inr attrs" and "found \<noteq> []"
    and "stat (path_after (ufid_realpath (cell f s)) (found @ [missing])) = Inl e"
    and "depth_after (max_depth U) (ufid_depth (cell f s)) (found @ [missing]) = Some d"
    and "fid_aux newfid < length (up_cells s)"
  shows "run (unpfs_rwalk S U f newfid (found @ missing # names)) s =
    (Inr (RWalk (map qid_from_attr attrs)),
     rebound newfid (path_after (ufid_realpath (cell f s)) (found @ [missing])) d s)"
proof -
  let ?d = "ufid_depth (cell f s)" and ?p = "ufid_realpath (cell f s)"
  have "depth_after limit a (ns @ [n]) = Some d \<Longrightarrow>
      \<exists>d0. depth_after limit a ns = Some d0 \<and> step_depth limit d0 n = Some d" for limit a ns n
    by (induction ns arbitrary: a) (auto split: option.splits)
  then obtain d0 where d0: "depth_after (max_depth U) ?d found = Some d0" "step_depth (max_depth U) d0 missing = Some d"
    using assms(5) by blast
  have "run (walk_loop S (max_depth U) True (found @ missing # names) ?p ?d []) s =
      (Inr (path_after ?p (found @ [missing]), d, map qid_from_attr attrs), s)"
    using walk_loop_found [OF assms(1,2) d0(1), of True "missing # names" "[]" s]
      assms(3,4) d0(2)
    by (simp add: get_qid_still [OF assms(1)] path_after_def)
  then show ?thesis using assms(6) by (rule unpfs_rwalk_result)
qed

text \<open>
  C30. A walk fails without touching any fid in two cases: when its first name does not
  exist, with the error of the lookup, and when a name would lead beyond the limit, with
  \<^verbatim>\<open>ELOOP\<close>, even where the names before it were found.
\<close>

theorem refused_walk_changes_nothing:
  assumes "os_symlink_metadata S = (\<lambda>p w. (stat p, w))"
    and "map stat (walk_paths (ufid_realpath (cell f s)) found) = map Inr attrs"
    and "depth_after (max_depth U) (ufid_depth (cell f s)) found = Some d"
    and "step_depth (max_depth U) d name = None \<and> e = No ELOOP \<or>
      found = [] \<and> step_depth (max_depth U) d name \<noteq> None \<and>
      (\<exists>io. stat (path_push (ufid_realpath (cell f s)) name) = Inl io \<and> e = error_from_io io)"
  shows "run (unpfs_rwalk S U f newfid (found @ name # names)) s = (Inl e, s)"
  using walk_loop_found [OF assms(1-3), of True "name # names" "[]" s] assms(4)
  by (intro unpfs_rwalk_error) (auto simp: fail_def get_qid_still [OF assms(1)] split: option.splits)

lemma sample_still: "os_symlink_metadata sample_os = (\<lambda>p w. (sample_stat p, w))"
  by (simp add: sample_os_def)

lemma sample_cells [simp]:
  "ufid_realpath (cell sample_root sample_state) = ascii ''/srv''"
  "ufid_depth (cell sample_root sample_state) = 0"
  "fid_aux sample_new < length (up_cells sample_state)"
  "max_depth sample_unpfs = 2"
  by (simp_all add: cell_def sample_root_def sample_state_def sample_new_def sample_unpfs_def)

lemma sample_paths:
  "path_push (ascii ''/srv'') (ascii ''a'') = ascii ''/srv/a''"
  "path_push (ascii ''/srv/a'') (ascii ''b'') = ascii ''/srv/a/b''"
  "path_push (ascii ''/srv/a'') (ascii ''q'') = ascii ''/srv/a/q''"
  "sample_stat (ascii ''/srv/a'') = Inr (sample_metadata True 2)"
  "sample_stat (ascii ''/srv/a/b'') = Inr (sample_metadata False 3)"
  "sample_stat (ascii ''/srv/a/q'') = Inl (Os 2)"
  by (simp_all add: path_push_def is_absolute_def slash_def ascii_def sample_stat_def)

lemma sample_depths:
  "step_depth 2 0 (ascii ''a'') = Some 1" "step_depth 2 (Suc 0) (ascii ''b'') = Some 2"
  "step_depth 2 (Suc 0) (ascii ''q'') = Some 2" "step_depth 2 2 (ascii ''c'') = None"
  by (simp_all add: step_depth_def ascii_def)

theorem walk_to_the_end_witness:
  "run (unpfs_rwalk sample_os sample_unpfs sample_root sample_new [ascii ''a'', ascii ''b'']) sample_state =
     (Inr (RWalk (map qid_from_attr [sample_metadata True 2, sample_metadata False 3])),
      rebound sample_new (ascii ''/srv/a/b'') 2 sample_state)"
  using walk_to_the_end [OF sample_still, of sample_root sample_state "[ascii ''a'', ascii ''b'']"
      "[sample_metadata True 2, sample_metadata False 3]" sample_unpfs 2 sample_new]
  by (simp add: sample_paths sample_depths)

theorem partial_walk_binds_missing_path_witness:
  "run (unpfs_rwalk sample_os sample_unpfs sample_root sample_new [ascii ''a'', ascii ''q'', ascii ''r'']) sample_state =
     (Inr (RWalk [qid_from_attr (sample_metadata True 2)]),
      rebound sample_new (ascii ''/srv/a/q'') 2 sample_state)"
  using partial_walk_binds_missing_path [OF sample_still, of sample_root sample_state "[ascii ''a'']"
      "[sample_metadata True 2]" "ascii ''q''" "Os 2" sample_unpfs 2 sample_new "[ascii ''r'']"]
  by (simp add: sample_paths sample_depths)

theorem refused_walk_changes_nothing_witness:
  "run (unpfs_rwalk sample_os sample_unpfs sample_root sample_new [ascii ''a'', ascii ''b'', ascii ''c'']) sample_state =
     (Inl (No ELOOP), sample_state)"
  using refused_walk_changes_nothing [OF sample_still, of sample_root sample_state "[ascii ''a'', ascii ''b'']"
      "[sample_metadata True 2, sample_metadata False 3]" sample_unpfs 2 "ascii ''c''" "No ELOOP" sample_new "[]"]
  by (simp add: sample_paths sample_depths)

section \<open>Where a walk can lead\<close>

lemma walk_loop_taken:
  "run (walk_loop S limit first names p d qs) s = (Inr (p', d', qs'), s') \<Longrightarrow>
     \<exists>w. s' = s\<lparr>up_os := w\<rparr> \<and> (\<exists>k \<le> length names. p' = path_after p (take k names) \<and> depth_after limit d (take k names) = Some d')"
proof (induction names arbitrary: first p d qs s)
  case Nil
  then show ?case by (intro exI [of _ "up_os s"]) auto
next
  case (Cons name names)
  from Cons.prems obtain d1 where d1: "step_depth limit d name = Some d1"
    by (auto simp: fail_def split: option.splits)
  obtain r w1 where q: "get_qid S (path_push p name) (up_os s) = (r, w1)" by fastforce
  show ?case
  proof (cases r)
    case (Inl e)
    with Cons.prems d1 q show ?thesis
      by (intro exI [of _ w1] conjI exI [of _ 1]) (auto split: if_splits)
  next
    case (Inr qid)
    with Cons.prems d1 q
    have "run (walk_loop S limit False names (path_push p name) d1 (qs @ [qid])) (s\<lparr>up_os := w1\<rparr>) = (Inr (p', d', qs'), s')"
      by simp
    from Cons.IH [OF this] obtain w k where "s' = s\<lparr>up_os := w\<rparr>" "k \<le> length names"
      "p' = path_after (path_push p name) (take k names)" "depth_after limit d1 (take k names) = Some d'"
      by auto
    with d1 show ?thesis by (intro exI [of _ w] conjI exI [of _ "Suc k"]) simp_all
  qed
qed

lemma update_read_back: "xs[i := g (xs[i := a] ! i)] = xs[i := g a]"
  by (cases "i < length xs") (simp_all add: not_less list_update_beyond)

lemma unpfs_rwalk_success:
  fixes s :: "'w unpfs_state"
  assumes "run (unpfs_rwalk S U f newfid names) s = (Inr r, s')"
  obtains p' d' qs w where
    "run (walk_loop S (max_depth U) True names (ufid_realpath (cell f s)) (ufid_depth (cell f s)) []) s =
       (Inr (p', d', qs), s\<lparr>up_os := w\<rparr>)"
    "r = RWalk qs" "s' = rebound newfid p' d' (s\<lparr>up_os := w\<rparr>)"
proof -
  let ?walk = "walk_loop S (max_depth U) True names (ufid_realpath (cell f s)) (ufid_depth (cell f s)) []"
  obtain x s1 where walk: "run ?walk s = (x, s1)" by fastforce
  with assms obtain y where x: "x = Inr y"
    by (cases x) (auto simp: unpfs_rwalk_def and_then_def peek_def)
  obtain p' d' qs where y: "y = (p', d', qs)" by (cases y)
  obtain w where "s1 = s\<lparr>up_os := w\<rparr>"
    using walk_loop_taken [OF walk [unfolded x y]] by blast
  with that [of p' d' qs w] assms walk show thesis
    by (auto simp: unpfs_rwalk_def rebound_def cell_def update_read_back x y and_then_def peek_def poke_def ok_def)
qed

lemma path_after_plain:
  "p \<noteq> [] \<Longrightarrow> last p \<noteq> slash \<Longrightarrow> list_all plain_name names \<Longrightarrow>
     path_after p names = p @ concat (map ((#) slash) names)"
proof (induction names arbitrary: p)
  case (Cons n ns)
  then have "n \<noteq> []" and "last n \<noteq> slash"
    by (auto simp: plain_name_def dest: last_in_set)
  with Cons show ?case by (simp add: path_push_plain)
qed simp

lemma depth_after_plain:
  "list_all plain_name names \<Longrightarrow> depth_after limit d names = Some d' \<Longrightarrow> d' = d + length names"
  by (induction names arbitrary: d) (fastforce simp: step_depth_def plain_name_def split: if_splits)+

lemma cell_rebound [simp]:
  "fid_aux f < length (up_cells s) \<Longrightarrow>
     cell f (rebound f p d s) = (cell f s)\<lparr>ufid_realpath := p, ufid_depth := d\<rparr>"
  by (simp add: rebound_def cell_def)

text \<open>
  A walk whose names are plain, with no separator in them and neither \<^verbatim>\<open>.\<close> nor
  \<^verbatim>\<open>..\<close>, can only lead below the file it starts at: the new path is the old one with some of the
  names behind it, and the depth grows by their number.
\<close>

lemma plain_walk_stays_below:
  assumes "run (unpfs_rwalk S U f newfid names) s = (Inr r, s')"
    and "list_all plain_name names" and "fid_aux newfid < length (up_cells s)"
    and "ufid_realpath (cell f s) \<noteq> []" and "last (ufid_realpath (cell f s)) \<noteq> slash"
  shows "\<exists>k. ufid_realpath (cell newfid s') = ufid_realpath (cell f s) @ concat (map ((#) slash) (take k names)) \<and>
     ufid_depth (cell newfid s') = ufid_depth (cell f s) + length (take k names)"
proof -
  obtain p' d' qs w where
    walk: "run (walk_loop S (max_depth U) True names (ufid_realpath (cell f s)) (ufid_depth (cell f s)) []) s =
       (Inr (p', d', qs), s\<lparr>up_os := w\<rparr>)"
    and s': "s' = rebound newfid p' d' (s\<lparr>up_os := w\<rparr>)"
    using assms(1) by (rule unpfs_rwalk_success)
  obtain k where k: "p' = path_after (ufid_realpath (cell f s)) (take k names)"
    "depth_after (max_depth U) (ufid_depth (cell f s)) (take k names) = Some d'"
    using walk_loop_taken [OF walk] by blast
  have plain: "list_all plain_name (take k names)"
    using assms(2) by (auto simp: list_all_iff dest: in_set_takeD)
  show ?thesis
    using path_after_plain [OF assms(4,5) plain] depth_after_plain [OF plain k(2)] assms(3)
    by (intro exI [of _ k]) (simp add: s' k(1))
qed

text \<open>
  C33. A walk is not confined to the exported directory: a name that starts with a slash
  replaces the path, so one step leads from any fid to any file of the host, at a depth of
  at most one more.
\<close>

theorem absolute_name_leaves_the_export:
  assumes "run (unpfs_rwalk S U f newfid [name]) s = (Inr r, s')" and "is_absolute name"
    and "fid_aux newfid < length (up_cells s)"
  shows "ufid_realpath (cell newfid s') = name \<and>
    ufid_depth (cell newfid s') = ufid_depth (cell f s) + 1"
proof -
  have "name \<noteq> ascii ''..''" and "name \<noteq> ascii ''.''"
    using assms(2) by (auto simp: is_absolute_def ascii_def slash_def)
  then show ?thesis
    using assms
    by (auto elim!: unpfs_rwalk_success simp: step_depth_def path_push_absolute
        split: if_splits sum.splits prod.splits)
qed

theorem absolute_name_leaves_the_export_witness:
  "ufid_realpath (cell sample_new (snd (run (unpfs_rwalk sample_os sample_unpfs sample_root sample_new
     [ascii ''/etc'']) sample_state))) = ascii ''/etc''"
proof -
  have "is_absolute (ascii ''/etc'')" by (simp add: is_absolute_def ascii_def slash_def)
  moreover have "sample_stat (ascii ''/etc'') = Inr (sample_metadata True 4)"
    by (simp add: sample_stat_def ascii_def)
  ultimately have walk: "run (unpfs_rwalk sample_os sample_unpfs sample_root sample_new [ascii ''/etc'']) sample_state =
      (Inr (RWalk [qid_from_attr (sample_metadata True 4)]), rebound sample_new (ascii ''/etc'') 1 sample_state)"
    by (intro unpfs_rwalk_result)
      (simp_all add: step_depth_def ascii_def path_push_absolute get_qid_still [OF sample_still])
  from absolute_name_leaves_the_export [OF walk] have
    "ufid_realpath (cell sample_new (rebound sample_new (ascii ''/etc'') 1 sample_state)) = ascii ''/etc''"
    by (simp add: is_absolute_def ascii_def slash_def)
  then show ?thesis by (simp only: walk snd_conv)
qed

section \<open>Reading a directory page by page\<close>

lemma DirEntryData_size_push:
  "DirEntryData_size (DirEntryData_push d e) = DirEntryData_size d + DirEntry_size e"
  by (simp add: DirEntryData_size_def DirEntryData_push_def)

lemma run_readdir_loop [simp]:
  "run (readdir_loop S cnt [] i d) s = (Inr d, s)"
  "run (readdir_loop S cnt (Inl e # es) i d) s = (Inl (error_from_io e), s)"
  "run (readdir_loop S cnt (Inr en # es) i d) s =
     (case get_dirent S en (2 + of_nat i) (up_os s) of
        (Inl e, w) \<Rightarrow> (Inl e, s\<lparr>up_os := w\<rparr>)
      | (Inr dirent, w) \<Rightarrow>
          if DirEntryData_size d + DirEntry_size dirent > cnt then (Inr d, s\<lparr>up_os := w\<rparr>)
          else run (readdir_loop S cnt es (i + 1) (DirEntryData_push d dirent)) (s\<lparr>up_os := w\<rparr>))"
  by (simp_all add: ok_def fail_def split: prod.splits sum.splits)

declare readdir_loop.simps [simp del]

text \<open>What a future of data can come to, given what it starts from.\<close>

abbreviation fits :: "u32 \<Rightarrow> error + DirEntryData \<Rightarrow> bool" where
  "fits cnt r \<equiv> \<forall>d. r = Inr d \<longrightarrow> DirEntryData_size d \<le> cnt"

lemma readdir_loop_bound:
  "DirEntryData_size d \<le> cnt \<Longrightarrow> yields (fits cnt) (readdir_loop S cnt es i d)"
proof (induction S cnt es i d rule: readdir_loop.induct)
  case (3 S cnt en es i d)
  have "yields (fits cnt)
      (if cnt < DirEntryData_size d + DirEntry_size de then done_with d
       else readdir_loop S cnt es (i + 1) (DirEntryData_push d de))" for de
    using "3.IH" [of de] "3.prems" by (simp add: DirEntryData_size_push not_less)
  then show ?case
    unfolding readdir_loop.simps by (intro yields_await_ok) simp_all
qed (simp_all add: readdir_loop.simps)

text \<open>
  C34. A page of a directory after the first is never larger than the client asked for, in
  the size the server computes, whatever the directory holds and whatever other requests do
  while it is read.
\<close>

theorem later_pages_fit_the_count:
  assumes "off \<noteq> 0"
  shows "yields (\<lambda>r. \<forall>d. r = Inr (RReadDir d) \<longrightarrow> DirEntryData_size d \<le> cnt) (unpfs_rreaddir S f off cnt)"
proof -
  let ?Q = "\<lambda>r. \<forall>d. r = Inr (RReadDir d) \<longrightarrow> DirEntryData_size d \<le> cnt"
  have new: "DirEntryData_size DirEntryData_new \<le> cnt"
    by (simp add: DirEntryData_size_def DirEntryData_new_def DirEntryData_with_def)
  have page: "yields ?Q (await_ok (readdir_loop S cnt es i DirEntryData_new) (\<lambda>data. done_with (RReadDir data)))" for es i
    by (rule yields_await_ok_dest [OF readdir_loop_bound [OF new]]) auto
  have "unpfs_rreaddir S f off cnt =
      await_ok (with_realpath f (\<lambda>p. host (io_call (os_read_dir S p)))) (\<lambda>entries.
      await_ok (readdir_loop S cnt (drop (unat (off - 1)) entries) (unat (off - 1)) DirEntryData_new) (\<lambda>data.
      done_with (RReadDir data)))"
    using assms by (simp add: unpfs_rreaddir_def)
  then show ?thesis by (simp only:) (rule yields_await_ok [OF _ page], simp)
qed

text \<open>The entries every first page starts with, from the metadata of \<^verbatim>\<open>.\<close> and \<^verbatim>\<open>..\<close>.\<close>

definition dot_entries :: "Metadata \<Rightarrow> Metadata \<Rightarrow> DirEntry list" where
  "dot_entries here parent =
     [\<lparr>de_qid = qid_from_attr here, de_offset = 0, de_typ = 0, de_name = ascii ''.''\<rparr>,
      \<lparr>de_qid = qid_from_attr parent, de_offset = 1, de_typ = 0, de_name = ascii ''..''\<rparr>]"

lemma lossy_dots: "to_string_lossy (ascii ''.'') = ascii ''.''" "to_string_lossy (ascii ''..'') = ascii ''..''"
  by (rule lossy_of_valid, simp add: ascii_def)+

lemma readdir_loop_grows:
  "run (readdir_loop S cnt es i d0) s = (Inr d1, s') \<Longrightarrow> \<exists>more. ded_data d1 = ded_data d0 @ more"
  by (induction S cnt es i d0 arbitrary: s rule: readdir_loop.induct)
    (fastforce simp: DirEntryData_push_def split: if_splits sum.splits prod.splits)+

text \<open>
  C14. The first page breaks both rules of the others. Its entries \<^verbatim>\<open>.\<close> and \<^verbatim>\<open>..\<close> are
  there whatever the count, even zero, and their qids are those of the server's own working
  directory and its parent, not of the directory that is read.
\<close>

theorem first_page_starts_in_working_directory:
  assumes "os_symlink_metadata S = (\<lambda>p w. (stat p, w))"
    and "stat (ascii ''.'') = Inr here" and "stat (ascii ''..'') = Inr parent"
    and "run (unpfs_rreaddir S f 0 cnt) s = (Inr (RReadDir d), s')"
  shows "take 2 (ded_data d) = dot_entries here parent"
proof -
  from readdir_loop_grows assms show ?thesis
    by (auto simp: unpfs_rreaddir_def get_dirent_from_def get_qid_still [OF assms(1)] and_then_def
        sys_def ok_def DirEntryData_push_def DirEntryData_new_def DirEntryData_with_def peek_def dot_entries_def
        lossy_dots dest!: readdir_loop_grows split: sum.splits prod.splits)
qed

text \<open>The entry a directory reply holds for the entry \<open>i\<close> of the stream.\<close>

definition dirent_at :: "(entry \<Rightarrow> Metadata) \<Rightarrow> entry list \<Rightarrow> nat \<Rightarrow> DirEntry" where
  "dirent_at meta ens i =
     \<lparr>de_qid = qid_from_attr (meta (ens ! i)), de_offset = 2 + of_nat i, de_typ = 0,
      de_name = to_string_lossy (entry_name (ens ! i))\<rparr>"

lemma readdir_loop_page:
  assumes "os_entry_metadata S = (\<lambda>e w. (Inr (meta e), w))"
  shows "i \<le> length ens \<Longrightarrow> \<exists>n. i + n \<le> length ens \<and>
    run (readdir_loop S cnt (map Inr (drop i ens)) i d) s =
      (Inr \<lparr>ded_data = ded_data d @ map (dirent_at meta ens) [i..<i + n]\<rparr>, s) \<and>
    (i < length ens \<longrightarrow> DirEntryData_size d + DirEntry_size (dirent_at meta ens i) \<le> cnt \<longrightarrow> 0 < n)"
proof (induction "length ens - i" arbitrary: i d)
  case 0
  then show ?case by (intro exI [of _ 0]) simp
next
  case (Suc m)
  then have i: "i < length ens" by simp
  have de: "get_dirent S (ens ! i) (2 + of_nat i) w = (Inr (dirent_at meta ens i), w)" for w
    by (simp add: get_dirent_def and_then_def converting_def assms dirent_at_def ok_def)
  show ?case
  proof (cases "DirEntryData_size d + DirEntry_size (dirent_at meta ens i) > cnt")
    case True
    then show ?thesis
      using i de by (intro exI [of _ 0]) (simp add: Cons_nth_drop_Suc [symmetric] not_le)
  next
    case False
    let ?d = "DirEntryData_push d (dirent_at meta ens i)"
    have m: "m = length ens - Suc i" using Suc.hyps(2) by simp
    obtain n where n: "Suc i + n \<le> length ens" "run (readdir_loop S cnt (map Inr (drop (Suc i) ens)) (Suc i) ?d) s =
        (Inr \<lparr>ded_data = ded_data ?d @ map (dirent_at meta ens) [Suc i..<Suc i + n]\<rparr>, s)"
      using Suc.hyps(1) [OF m, of ?d] i by (auto simp del: upt_Suc)
    have "[i..<i + Suc n] = i # [Suc i..<Suc i + n]" by (simp add: upt_rec)
    with n i de False show ?thesis
      by (intro exI [of _ "Suc n"])
        (simp add: Cons_nth_drop_Suc [symmetric] DirEntryData_push_def)
  qed
qed

text \<open>A directory that holds still: its stream and the metadata of its entries.\<close>

lemma unpfs_rreaddir_page:
  assumes "os_entry_metadata S = (\<lambda>e w. (Inr (meta e), w))"
    and "os_read_dir S (ufid_realpath (cell f s)) = (\<lambda>w. (Inr (map Inr ens), w))"
    and "i \<le> length ens" and "length ens + 2 < 2 ^ 64"
    and "i < length ens \<Longrightarrow> DirEntry_size (dirent_at meta ens i) \<le> cnt"
  shows "\<exists>n. i + n \<le> length ens \<and> (i < length ens \<longrightarrow> 0 < n) \<and>
    run (unpfs_rreaddir S f (1 + of_nat i) cnt) s =
      (Inr (RReadDir \<lparr>ded_data = map (dirent_at meta ens) [i..<i + n]\<rparr>), s)"
proof -
  have i: "unat (of_nat i :: u64) = i"
    using assms(3,4) by (simp add: unat_of_nat)
  have off: "(1 + of_nat i :: u64) \<noteq> 0"
  proof
    assume "(1 + of_nat i :: u64) = 0"
    then have "unat (of_nat (Suc i) :: u64) = 0" by simp
    then show False using assms(3,4) by (simp add: unat_of_nat del: of_nat_Suc)
  qed
  obtain n where n: "i + n \<le> length ens" "run (readdir_loop S cnt (map Inr (drop i ens)) i DirEntryData_new) s =
      (Inr \<lparr>ded_data = map (dirent_at meta ens) [i..<i + n]\<rparr>, s)" "i < length ens \<longrightarrow> 0 < n"
    using readdir_loop_page [OF assms(1,3), of cnt DirEntryData_new s] assms(5)
    by (auto simp: DirEntryData_new_def DirEntryData_with_def DirEntryData_size_def)
  have "run (unpfs_rreaddir S f (1 + of_nat i) cnt) s =
      (Inr (RReadDir \<lparr>ded_data = map (dirent_at meta ens) [i..<i + n]\<rparr>), s)"
    using off n(2) by (simp add: unpfs_rreaddir_def and_then_assoc converting_def assms(2) i drop_map)
  with n show ?thesis by blast
qed

lemma unpfs_rreaddir_first_page:
  assumes "os_entry_metadata S = (\<lambda>e w. (Inr (meta e), w))"
    and "os_read_dir S (ufid_realpath (cell f s)) = (\<lambda>w. (Inr (map Inr ens), w))"
    and "os_symlink_metadata S = (\<lambda>p w. (stat p, w))"
    and "stat (ascii ''.'') = Inr here" and "stat (ascii ''..'') = Inr parent"
  shows "\<exists>n \<le> length ens. run (unpfs_rreaddir S f 0 cnt) s =
    (Inr (RReadDir \<lparr>ded_data = dot_entries here parent @ map (dirent_at meta ens) [0..<n]\<rparr>), s)"
proof -
  let ?d = "\<lparr>ded_data = dot_entries here parent\<rparr>"
  obtain n where n: "n \<le> length ens" "run (readdir_loop S cnt (map Inr ens) 0 ?d) s =
      (Inr \<lparr>ded_data = dot_entries here parent @ map (dirent_at meta ens) [0..<n]\<rparr>, s)"
    using readdir_loop_page [OF assms(1), of 0 ens cnt ?d s] by auto
  have "run (unpfs_rreaddir S f 0 cnt) s =
      run (await_ok (readdir_loop S cnt (map Inr ens) 0 ?d) (\<lambda>data. done_with (RReadDir data))) s"
    by (simp add: unpfs_rreaddir_def get_dirent_from_def get_qid_still [OF assms(3)] assms(2,4,5) and_then_def
        sys_def ok_def DirEntryData_push_def DirEntryData_new_def DirEntryData_with_def peek_def dot_entries_def
        lossy_dots converting_def)
  also have "\<dots> = (Inr (RReadDir \<lparr>ded_data = dot_entries here parent @ map (dirent_at meta ens) [0..<n]\<rparr>), s)"
    using n(2) by simp
  finally show ?thesis using n(1) by blast
qed

text \<open>
  A client that lists a directory: it asks again from the offset of the last entry it got
  until a page is empty. \<open>None\<close> when it runs out of fuel or gets an error.
\<close>

fun list_directory ::
  "'w os \<Rightarrow> ufid \<Rightarrow> u32 \<Rightarrow> nat \<Rightarrow> u64 \<Rightarrow> 'w unpfs_state \<Rightarrow> DirEntry list option" where
  "list_directory S f cnt 0 off s = None"
| "list_directory S f cnt (Suc fuel) off s =
     (case run (unpfs_rreaddir S f off cnt) s of
        (Inr (RReadDir d), s') \<Rightarrow>
          if ded_data d = [] then Some []
          else map_option ((@) (ded_data d))
                 (list_directory S f cnt fuel (de_offset (last (ded_data d))) s')
      | _ \<Rightarrow> None)"

lemma listing_from:
  assumes "os_entry_metadata S = (\<lambda>e w. (Inr (meta e), w))"
    and "os_read_dir S (ufid_realpath (cell f s)) = (\<lambda>w. (Inr (map Inr ens), w))"
    and "length ens + 2 < 2 ^ 64"
    and "\<And>i. i < length ens \<Longrightarrow> DirEntry_size (dirent_at meta ens i) \<le> cnt"
  shows "i \<le> length ens \<Longrightarrow> length ens - i < fuel \<Longrightarrow>
    list_directory S f cnt fuel (1 + of_nat i) s = Some (map (dirent_at meta ens) [i..<length ens])"
proof (induction fuel arbitrary: i)
  case (Suc fuel)
  obtain n where n: "i + n \<le> length ens" "i < length ens \<longrightarrow> 0 < n"
    "run (unpfs_rreaddir S f (1 + of_nat i) cnt) s =
      (Inr (RReadDir \<lparr>ded_data = map (dirent_at meta ens) [i..<i + n]\<rparr>), s)"
    using unpfs_rreaddir_page [OF assms(1,2) Suc.prems(1) assms(3)] assms(4) by blast
  show ?case
  proof (cases "n = 0")
    case True
    with n Suc.prems(1) show ?thesis by simp
  next
    case False
    have last: "de_offset (last (map (dirent_at meta ens) [i..<i + n])) = 1 + of_nat (i + n)"
      using False by (cases n) (simp_all add: dirent_at_def last_map)
    have "list_directory S f cnt fuel (1 + of_nat (i + n)) s =
        Some (map (dirent_at meta ens) [i + n..<length ens])"
      using Suc.IH [of "i + n"] n(1) Suc.prems(2) False by simp
    moreover have "[i..<length ens] = [i..<i + n] @ [i + n..<length ens]"
      using n(1) by (metis le_add1 le_add_diff_inverse upt_add_eq_append)
    ultimately show ?thesis
      using n(3) False last by simp
  qed
qed simp

text \<open>
  C13. The offsets of the entries fit together with the offsets the server resumes at. On a
  directory that holds still, a client that starts at offset 0 and asks again each time from the
  offset of the last entry it got receives \<^verbatim>\<open>.\<close> and \<^verbatim>\<open>..\<close>, then every entry of the directory
  exactly once and in order, and then an empty page, however the pages are cut; and one that
  starts at the offset of any entry receives the entries behind it. Each single entry must
  fit the count of the client: one that does not is an empty page, which ends the listing.
\<close>

theorem listing_is_complete:
  assumes "os_entry_metadata S = (\<lambda>e w. (Inr (meta e), w))"
    and "os_read_dir S (ufid_realpath (cell f s)) = (\<lambda>w. (Inr (map Inr ens), w))"
    and "os_symlink_metadata S = (\<lambda>p w. (stat p, w))"
    and "stat (ascii ''.'') = Inr here" and "stat (ascii ''..'') = Inr parent"
    and "length ens + 2 < 2 ^ 64"
    and "\<And>i. i < length ens \<Longrightarrow> DirEntry_size (dirent_at meta ens i) \<le> cnt"
    and "length ens + 1 < fuel" and "i < length ens"
  shows "list_directory S f cnt fuel 0 s =
      Some (dot_entries here parent @ map (dirent_at meta ens) [0..<length ens]) \<and>
    list_directory S f cnt fuel (de_offset (dirent_at meta ens i)) s =
      Some (map (dirent_at meta ens) [Suc i..<length ens])"
proof (rule conjI)
  note rest = listing_from [OF assms(1,2,6,7)]
  obtain n where n: "n \<le> length ens" "run (unpfs_rreaddir S f 0 cnt) s =
      (Inr (RReadDir \<lparr>ded_data = dot_entries here parent @ map (dirent_at meta ens) [0..<n]\<rparr>), s)"
    using unpfs_rreaddir_first_page [OF assms(1-5)] by blast
  obtain m where m: "fuel = Suc m" "length ens < m" using assms(8) by (cases fuel) auto
  have "de_offset (last (dot_entries here parent @ map (dirent_at meta ens) [0..<n])) = 1 + of_nat n"
    by (cases n) (simp_all add: dot_entries_def dirent_at_def last_map)
  moreover have "dot_entries here parent \<noteq> []" by (simp add: dot_entries_def)
  moreover have "list_directory S f cnt m (1 + of_nat n) s = Some (map (dirent_at meta ens) [n..<length ens])"
    using rest [of n m] n(1) m(2) by simp
  moreover have "[0..<length ens] = [0..<n] @ [n..<length ens]"
    using upt_add_eq_append [of 0 n "length ens - n"] n(1) by simp
  ultimately show "list_directory S f cnt fuel 0 s =
      Some (dot_entries here parent @ map (dirent_at meta ens) [0..<length ens])"
    using n(2) by (simp add: m(1))
  have "de_offset (dirent_at meta ens i) = 1 + of_nat (Suc i)" by (simp add: dirent_at_def)
  then show "list_directory S f cnt fuel (de_offset (dirent_at meta ens i)) s =
      Some (map (dirent_at meta ens) [Suc i..<length ens])"
    using rest [of "Suc i" fuel] assms(8,9) by simp
qed

text \<open>The three entries of the sample directory, as replies show them.\<close>

definition sample_entries :: "entry list" where
  "sample_entries = [sample_entry ''x'', sample_entry ''yy'', sample_entry ''zzz'']"

lemma sample_directory:
  "os_entry_metadata sample_os = (\<lambda>e w. (Inr (sample_metadata False 9), w))"
  "os_read_dir sample_os p = (\<lambda>w. (Inr (map Inr sample_entries), w))"
  by (simp_all add: sample_os_def sample_entries_def)

lemma sample_entry_size:
  "i < length sample_entries \<Longrightarrow> DirEntry_size (dirent_at (\<lambda>_. sample_metadata False 9) sample_entries i) \<le> 30"
  by (auto simp: sample_entries_def sample_entry_def dirent_at_def DirEntry_size_def QId_size_def
      utf8_step_def ascii_def less_Suc_eq numeral_3_eq_3)

lemma sample_entries_length: "length sample_entries = 3"
  by (simp add: sample_entries_def)

lemma sample_dots:
  "sample_stat (ascii ''.'') = Inr (sample_metadata True 5)" "sample_stat (ascii ''..'') = Inr (sample_metadata True 6)"
  by (simp_all add: sample_stat_def ascii_def)

theorem listing_is_complete_witness:
  "list_directory sample_os sample_root 30 5 0 sample_state =
     Some (dot_entries (sample_metadata True 5) (sample_metadata True 6) @
       map (dirent_at (\<lambda>_. sample_metadata False 9) sample_entries) [0..<3])"
  using listing_is_complete [of sample_os "\<lambda>_. sample_metadata False 9" sample_root sample_state
      sample_entries sample_stat _ _ 30 5 0]
  by (simp add: sample_directory sample_entry_size sample_entries_length sample_still sample_dots)

theorem later_pages_fit_the_count_witness:
  "\<exists>d. run (unpfs_rreaddir sample_os sample_root 1 30) sample_state = (Inr (RReadDir d), sample_state) \<and>
     ded_data d \<noteq> [] \<and> DirEntryData_size d \<le> 30"
proof -
  obtain n where n: "0 < n" "run (unpfs_rreaddir sample_os sample_root 1 30) sample_state =
      (Inr (RReadDir \<lparr>ded_data = map (dirent_at (\<lambda>_. sample_metadata False 9) sample_entries) [0..<n]\<rparr>), sample_state)"
    using unpfs_rreaddir_page [of sample_os "\<lambda>_. sample_metadata False 9" sample_root sample_state
        sample_entries 0 30]
    by (auto simp: sample_directory sample_entry_size sample_entries_length)
  from yields_run [OF later_pages_fit_the_count, of 1 sample_os sample_root 30 sample_state] n
  show ?thesis by (intro exI conjI) (assumption, simp_all)
qed

theorem first_page_starts_in_working_directory_witness:
  "\<exists>d. run (unpfs_rreaddir sample_os sample_root 0 0) sample_state = (Inr (RReadDir d), sample_state) \<and>
     take 2 (ded_data d) = dot_entries (sample_metadata True 5) (sample_metadata True 6)"
proof -
  obtain d where d: "run (unpfs_rreaddir sample_os sample_root 0 0) sample_state = (Inr (RReadDir d), sample_state)"
    using unpfs_rreaddir_first_page [OF sample_directory sample_still sample_dots, where f = sample_root and s = sample_state and cnt = 0] by blast
  from first_page_starts_in_working_directory [OF sample_still sample_dots d] d show ?thesis by blast
qed

section \<open>Opening, reading and writing\<close>

text \<open>
  Only the access mode, \<^verbatim>\<open>O_CREAT\<close> and \<^verbatim>\<open>O_TRUNC\<close> of a client's flags count: two
  requests whose flags agree on them do the same, whatever other bits (\<^verbatim>\<open>O_DIRECT\<close>) they set.
\<close>

lemma other_open_flags_do_not_matter:
  assumes "flags AND UNIX_FLAGS S = flags' AND UNIX_FLAGS S"
  shows "unpfs_rlopen S f flags = unpfs_rlopen S f flags' \<and>
    unpfs_rlcreate S f name flags mode gid = unpfs_rlcreate S f name flags' mode gid"
  by (simp add: unpfs_rlopen_def unpfs_rlcreate_def assms)

text \<open>Without an open file nothing is read, written or synced.\<close>

lemma io_without_open_file:
  assumes "ufid_file (cell f s) = None"
  shows "run (unpfs_rread S f off cnt) s = (Inl invalid_fid, s)"
    and "run (unpfs_rwrite S f off data) s = (Inl invalid_fid, s)"
    and "run (unpfs_rfsync S f) s = (Inl invalid_fid, s)"
  using assms
  by (simp_all add: unpfs_rread_def unpfs_rwrite_def unpfs_rfsync_def file_of_def and_then_assoc fail_def ok_def)

section \<open>Setting attributes\<close>

text \<open>
  C37. Whether the host could set the times of a file is never reported: a host on which
  that call always fails gives the same answer to every request.
\<close>

theorem failing_to_set_times_is_not_reported:
  fixes S :: "'w os"
  shows "unpfs_rsetattr (S\<lparr>os_set_file_times := (\<lambda>p a m w. (Inl e, snd (os_set_file_times S p a m w)))\<rparr>) f valid stat =
     unpfs_rsetattr S f valid stat"
proof -
  have same: "ignoring_errors (host (io_call (\<lambda>w. (Inl e, snd (g w))))) = ignoring_errors (host (io_call g))"
    for g :: "('w, io_error, unit) comp"
    by (simp add: ignoring_errors_def one_piece_def sys_def converting_def fun_eq_iff
        split: prod.splits sum.splits)
  have "set_times (S\<lparr>os_set_file_times := (\<lambda>p a m w. (Inl e, snd (os_set_file_times S p a m w)))\<rparr>) p valid stat =
      set_times S p valid stat" for p
    by (simp add: set_times_def same cong: if_cong)
  then show ?thesis by (simp add: unpfs_rsetattr_def)
qed

end
