(* ===== verification/Answers.thy ===== *)
theory Answers
  imports Export Serialize
begin

text \<open>
  \<^verbatim>\<open>unpfs\<close> can answer every request: each of its methods ends, whatever else goes on, with
  an error or with a reply that fits a frame.
\<close>

section \<open>The size of a reply\<close>

text \<open>
  What the replies' sizes rest on: a read does not return more than the buffer holds
  (\<^verbatim>\<open>AsyncReadExt::read\<close>), and the names in a directory and the targets of links are shorter
  than \<^verbatim>\<open>PATH_MAX\<close>.
\<close>

definition bounded_host :: "'w os \<Rightarrow> bool" where
  "bounded_host S \<longleftrightarrow>
     (\<forall>h n w buf w'. os_read S h n w = (Inr buf, w') \<longrightarrow> length buf \<le> n) \<and>
     (\<forall>p w link w'. os_read_link S p w = (Inr link, w') \<longrightarrow> length link \<le> 4096) \<and>
     (\<forall>p w es w' e. os_read_dir S p w = (Inr es, w') \<longrightarrow> Inr e \<in> set es \<longrightarrow> length (entry_name e) \<le> 4096)"

lemma bounded_hostD:
  assumes "bounded_host S"
  shows "os_read S h n w = (Inr buf, w') \<Longrightarrow> length buf \<le> n"
    and "os_read_link S p w = (Inr link, w') \<Longrightarrow> length link \<le> 4096"
    and "os_read_dir S p w = (Inr es, w') \<Longrightarrow> Inr e \<in> set es \<Longrightarrow> length (entry_name e) \<le> 4096"
  using assms unfolding bounded_host_def by blast+

text \<open>
  A request that does not ask for more than fits a frame, with its seven bytes of header and
  count.
\<close>

definition asks_for :: "fcall \<Rightarrow> nat" where
  "asks_for body =
     (case body of TRead fid off cnt \<Rightarrow> unat cnt | TReadDir fid off cnt \<Rightarrow> unat cnt | _ \<Rightarrow> 0)"

lemma length_lossy: "length (to_string_lossy s) \<le> 3 * length s"
proof (induction s rule: to_string_lossy.induct)
  case (2 b s)
  obtain valid n where st: "utf8_step b s = (valid, n)" by fastforce
  then have "0 < n" using utf8_step_pos [of b s] by simp
  moreover have "length (to_string_lossy (drop n (b # s))) \<le> 3 * (length (b # s) - n)"
    using 2 [OF st [symmetric]] by (simp only: length_drop)
  moreover have "length (to_string_lossy (b # s)) =
      (if valid then min (length (b # s)) n else 3) + length (to_string_lossy (drop n (b # s)))"
    by (simp only: to_string_lossy.simps st prod.case length_append length_take if_distrib [of length])
      (simp add: replacement_def)
  moreover have "m \<le> 3 * (k - n) \<Longrightarrow> 0 < k \<Longrightarrow> (if valid then min k n else 3) + m \<le> 3 * k" for k m
    using \<open>0 < n\<close> by (auto simp: min_def)
  ultimately show ?case by (metis length_greater_0_conv list.distinct(1))
qed simp

lemma length_wire_fields [simp]:
  "length (wire_String n) = 2 + length n" "length (wire_QId q) = 13"
  "length (wire_Stat st) = 100" "length (wire_StatFs sf) = 60"
  by (simp_all add: wire_String_def wire_QId_def wire_Stat_def wire_StatFs_def wire_Time_def)

lemma length_wire_qids: "length (concat (map wire_QId qs)) = 13 * length qs"
  by (induction qs) simp_all

section \<open>Directory pages\<close>

lemma listing_bytes_new [simp]: "listing_bytes DirEntryData_new = 0"
  by (simp add: listing_bytes_def DirEntryData_new_def DirEntryData_with_def)

lemma listing_bytes_push:
  "listing_bytes (DirEntryData_push d e) = listing_bytes d + 24 + length (de_name e)"
  by (simp add: listing_bytes_def DirEntryData_push_def length_wire_DirEntry)

text \<open>As long as it stays below 32 bits, the size compared with the count is the true one.\<close>

lemma listing_bytes_bound:
  assumes "DirEntryData_size d + DirEntry_size e \<le> cnt"
    and "listing_bytes d + 24 + length (de_name e) < 2 ^ 32"
  shows "listing_bytes (DirEntryData_push d e) \<le> unat cnt"
proof -
  let ?d = "DirEntryData_push d e"
  have "DirEntryData_size ?d = word_of_nat (listing_bytes ?d)"
    by (rule DirEntryData_size_wire)
  moreover have "listing_bytes ?d < 2 ^ 32"
    using assms(2) by (simp add: listing_bytes_push)
  ultimately have "unat (DirEntryData_size ?d) = listing_bytes ?d"
    by (simp add: unat_of_nat)
  then show ?thesis
    using assms(1) unat_mono by (metis DirEntryData_size_push word_le_nat_alt)
qed

definition page_within :: "nat \<Rightarrow> error + DirEntryData \<Rightarrow> bool" where
  "page_within n r \<longleftrightarrow> (\<forall>d. r = Inr d \<longrightarrow> listing_bytes d \<le> n)"

lemma page_within_simps [simp]:
  "page_within n (Inl e)" "page_within n (Inr d) \<longleftrightarrow> listing_bytes d \<le> n"
  by (simp_all add: page_within_def)

lemma dirent_name:
  "yields (\<lambda>r. \<forall>de. r = Inr de \<longrightarrow> length (de_name de) \<le> 3 * length (entry_name en))
     (host (get_dirent S en off))"
  using length_lossy [of "entry_name en"]
  by (auto simp: one_piece_def sys_def get_dirent_def and_then_def ok_def split: prod.splits sum.splits)

lemma readdir_loop_within:
  assumes "\<forall>en. Inr en \<in> set es \<longrightarrow> length (entry_name en) \<le> 4096"
    and "listing_bytes d \<le> n" and "unat cnt \<le> n" and "n \<le> max_frame_length"
  shows "yields (page_within n) (readdir_loop S cnt es i d)"
  using assms(1-3)
proof (induction S cnt es i d rule: readdir_loop.induct)
  case (3 S cnt en es i d)
  have "yields (page_within n)
      (if cnt < DirEntryData_size d + DirEntry_size de then done_with d
       else readdir_loop S cnt es (i + 1) (DirEntryData_push d de))"
    if "length (de_name de) \<le> 3 * length (entry_name en)" for de
  proof (cases "cnt < DirEntryData_size d + DirEntry_size de")
    case False
    have "length (de_name de) \<le> 3 * 4096" using that "3.prems"(1) by (meson le_trans mult_le_mono2 list.set_intros(1))
    then have "listing_bytes d + 24 + length (de_name de) < 2 ^ 32"
      using "3.prems"(2) assms(4) by (simp add: max_frame_length_def)
    with False have "listing_bytes (DirEntryData_push d de) \<le> n"
      using listing_bytes_bound [of d de cnt] "3.prems"(3) by (simp add: not_less)
    with False show ?thesis using "3.IH" [of de] "3.prems" by simp
  qed (use "3.prems"(2) in simp)
  then show ?case
    unfolding readdir_loop.simps by (intro yields_await_ok_dest [OF dirent_name]) simp_all
qed (simp_all add: readdir_loop.simps)

text \<open>
  The first page starts with \<^verbatim>\<open>.\<close> and \<^verbatim>\<open>..\<close>, 51 bytes, whatever the count.
\<close>

lemma dot_entries:
  "yields (\<lambda>r. \<forall>de. r = Inr de \<longrightarrow> de_name de = to_string_lossy p) (host (get_dirent_from S p off))"
  by (auto simp: one_piece_def sys_def get_dirent_from_def and_then_def ok_def split: prod.splits sum.splits)

lemma rreaddir_within:
  assumes "bounded_host S" and "unat cnt \<le> n" and "51 \<le> n" and "n \<le> max_frame_length"
  shows "yields (\<lambda>r. \<forall>m. r = Inr m \<longrightarrow> (\<exists>d. m = RReadDir d \<and> listing_bytes d \<le> n)) (unpfs_rreaddir S f off cnt)"
    (is "yields ?Q _")
proof -
  have entries: "yields (\<lambda>r. \<forall>es. r = Inr es \<longrightarrow> (\<forall>en. Inr en \<in> set es \<longrightarrow> length (entry_name en) \<le> 4096))
      (with_realpath f (\<lambda>p. host (io_call (os_read_dir S p))))"
    by (rule yields_under) (auto simp: one_piece_def sys_def converting_def
        dest: bounded_hostD(3) [OF assms(1)] split: prod.splits sum.splits)
  have rest: "yields ?Q
      (await_ok (with_realpath f (\<lambda>p. host (io_call (os_read_dir S p)))) (\<lambda>entries.
       await_ok (readdir_loop S cnt (drop k entries) k d) (\<lambda>data. done_with (RReadDir data))))"
    if "listing_bytes d \<le> n" for d k
  proof (rule yields_await_ok_dest [OF entries], simp)
    fix es :: "(io_error + entry) list"
    assume "\<forall>x. Inr es = Inr x \<longrightarrow> (\<forall>en. Inr en \<in> set x \<longrightarrow> length (entry_name en) \<le> 4096)"
    then have "\<forall>en. Inr en \<in> set (drop k es) \<longrightarrow> length (entry_name en) \<le> 4096"
      using in_set_dropD by fast
    then show "yields ?Q (await_ok (readdir_loop S cnt (drop k es) k d) (\<lambda>data. done_with (RReadDir data)))"
      by (rule yields_await_ok_dest [OF readdir_loop_within [OF _ that assms(2,4)]]) simp_all
  qed
  have start: "yields (\<lambda>r. \<forall>d k. r = Inr (d, k) \<longrightarrow> listing_bytes d \<le> n)
      (if off = 0 then
         await_ok (host (get_dirent_from S (ascii ''.'') 0)) (\<lambda>dot.
         await_ok (host (get_dirent_from S (ascii ''..'') 1)) (\<lambda>dotdot.
         done_with (DirEntryData_push (DirEntryData_push DirEntryData_new dot) dotdot, off)))
       else done_with (DirEntryData_new, off - 1))"
  proof (cases "off = 0")
    case True
    have "length (to_string_lossy (ascii ''.'')) = 1" "length (to_string_lossy (ascii ''..'')) = 2"
      by (subst lossy_of_valid; simp add: ascii_def)+
    with True assms(3) show ?thesis
      by (simp, intro yields_await_ok_dest [OF dot_entries]) (simp_all add: listing_bytes_push)
  qed simp
  show ?thesis
    unfolding unpfs_rreaddir_def
    by (rule yields_await_ok_dest [OF start]) (auto intro!: rest)
qed

section \<open>The other methods\<close>

lemma yields_case_prod: "(\<And>x y. yields Q (k x y)) \<Longrightarrow> yields Q (case p of (x, y) \<Rightarrow> k x y)"
  by (simp split: prod.splits)

lemma yields_Let: "yields Q (k x) \<Longrightarrow> yields Q (let y = x in k y)"
  by simp

lemmas yields_intros = yields_await_ok yields_case_prod yields_Let

lemma can_send_simps [simp]: "can_send (Inl e)" "can_send (Inr r) = sendable r"
  by (simp_all add: can_send_def)

lemma walk_loop_qids:
  "yields (\<lambda>r. \<forall>p' d' qs'. r = Inr (p', d', qs') \<longrightarrow> length qs' \<le> length qs + length names)
     (walk_loop S limit first names p d qs)"
proof (induction names arbitrary: first p d qs)
  case Nil
  show ?case by (simp add: walk_loop.simps)
next
  case (Cons name names)
  have "yields (\<lambda>r. \<forall>p' d' qs'. r = Inr (p', d', qs') \<longrightarrow> length qs' \<le> length qs + length (name # names))
      (walk_loop S limit False names (path_push p name) d' (qs @ [q]))" for d' q
    using Cons.IH [of "qs @ [q]"] by simp
  then show ?case
    by (auto simp: walk_loop.simps intro!: yields_await split: option.splits sum.splits)
qed

lemma rwalk_sendable:
  assumes "length names < 2 ^ 16"
  shows "yields can_send (unpfs_rwalk S U f newfid names)"
  unfolding unpfs_rwalk_def
proof (rule yields_await_ok, simp, rule yields_await_ok, simp)
  fix p d
  show "yields can_send (await_ok (walk_loop S (max_depth U) True names p d []) (\<lambda>(p', new_depth, wqids).
       await_ok (put newfid ''realpath'' (ufid_realpath_update (\<lambda>_. p'))) (\<lambda>_.
       await_ok (put newfid ''depth'' (ufid_depth_update (\<lambda>_. new_depth))) (\<lambda>_.
       done_with (RWalk wqids)))))"
    using assms
    by (intro yields_await_ok_dest [OF walk_loop_qids])
      (auto intro!: yields_await_ok simp: sendable_def wire_Vec_def length_wire_qids max_frame_length_def
        simp del: length_concat)
qed

lemma rread_sendable:
  assumes "bounded_host S" and "unat cnt + 7 \<le> max_frame_length"
  shows "yields can_send (unpfs_rread S f off cnt)"
proof -
  have "yields (\<lambda>r. \<forall>buf. r = Inr buf \<longrightarrow> length buf \<le> unat cnt)
      (with_file f (\<lambda>h. await_ok (host (io_call (os_seek S h off))) (\<lambda>_.
         host (io_call (os_read S h (unat cnt))))))"
    by (rule yields_under, simp, rule yields_await_ok) (auto simp: one_piece_def sys_def converting_def
        dest: bounded_hostD(1) [OF assms(1)] split: prod.splits sum.splits)
  then show ?thesis
    unfolding unpfs_rread_def using assms(2)
    by (intro yields_await_ok_dest [of "\<lambda>r. \<forall>buf. r = Inr buf \<longrightarrow> length buf \<le> unat cnt"])
      (auto simp: sendable_def)
qed

lemma rreadlink_sendable:
  assumes "bounded_host S"
  shows "yields can_send (unpfs_rreadlink S f)"
proof -
  have "yields (\<lambda>r. \<forall>link. r = Inr link \<longrightarrow> length link \<le> 4096)
      (with_realpath f (\<lambda>p. host (io_call (os_read_link S p))))"
    by (rule yields_under) (auto simp: one_piece_def sys_def converting_def
        dest: bounded_hostD(2) [OF assms(1)] split: prod.splits sum.splits)
  moreover have "length link \<le> 4096 \<Longrightarrow> sendable (RReadLink (to_string_lossy link))" for link
    using length_lossy [of link] by (simp add: sendable_def max_frame_length_def)
  ultimately show ?thesis
    unfolding unpfs_rreadlink_def
    by (intro yields_await_ok_dest [of "\<lambda>r. \<forall>link. r = Inr link \<longrightarrow> length link \<le> 4096"]) auto
qed

lemma rreaddir_sendable:
  assumes "bounded_host S" and "unat cnt + 7 \<le> max_frame_length"
  shows "yields can_send (unpfs_rreaddir S f off cnt)"
proof -
  let ?n = "max 51 (unat cnt)"
  have "?n + 7 \<le> max_frame_length" using assms(2) by (simp add: max_frame_length_def)
  then have "listing_bytes d \<le> ?n \<Longrightarrow> sendable (RReadDir d)" for d
    by (simp add: sendable_def wire_DirEntryData_def listing_bytes_def)
  moreover have "yields (\<lambda>r. \<forall>m. r = Inr m \<longrightarrow> (\<exists>d. m = RReadDir d \<and> listing_bytes d \<le> ?n))
      (unpfs_rreaddir S f off cnt)"
    using \<open>?n + 7 \<le> max_frame_length\<close> by (intro rreaddir_within [OF assms(1)]) (simp_all add: max_frame_length_def)
  ultimately show ?thesis
    unfolding yields_def
    by (auto elim!: steady_mono simp: can_send_def split: sum.splits)
qed

lemma fixed_size_sendable:
  "yields can_send (unpfs_rattach S U f afid uname aname n)"
  "yields can_send (unpfs_rgetattr S f m)"
  "yields can_send (unpfs_rsetattr S f v st)"
  "yields can_send (unpfs_rlopen S f fl)"
  "yields can_send (unpfs_rlcreate S f name fl mode gid)"
  "yields can_send (unpfs_rwrite S f off d)"
  "yields can_send (unpfs_rmkdir S f name mode gid)"
  "yields can_send (unpfs_rrenameat S f name f' name')"
  "yields can_send (unpfs_runlinkat S f name fl)"
  "yields can_send (unpfs_rfsync S f)"
  "yields can_send (unpfs_rclunk f)"
  "yields can_send (unpfs_rstatfs S f)"
  "yields can_send (default_rversion Ready msize ver)"
  "yields can_send (unsupported Ready)"
  unfolding unpfs_rattach_def unpfs_rgetattr_def unpfs_rsetattr_def unpfs_rlopen_def
    unpfs_rlcreate_def unpfs_rwrite_def unpfs_rmkdir_def unpfs_rrenameat_def unpfs_runlinkat_def
    unpfs_rfsync_def unpfs_rclunk_def unpfs_rstatfs_def default_rversion_def unsupported_def
  by ((intro yields_intros)?; simp add: sendable_def max_frame_length_def P92000L_def VERSION_UNKNOWN_def ascii_def)+

lemmas methods_sendable =
  fixed_size_sendable rwalk_sendable rread_sendable rreadlink_sendable rreaddir_sendable

lemma unpfs_answerable:
  assumes "bounded_host S" and "valid_fcall body" and "asks_for body + 7 \<le> max_frame_length"
  shows "answerable (unpfs S U) body"
  unfolding answerable_def
proof (intro allI impI)
  fix fids newfid fut
  assume "route (unpfs S U) fids newfid body = Inr fut"
  with assms show "yields can_send fut"
    by (cases body)
      (auto simp: route_def or_return_eq_Inr asks_for_def valid_Vec_def intro: methods_sendable)
qed

lemma sample_bounded: "bounded_host sample_os"
  by (auto simp: bounded_host_def sample_os_def sample_entry_def ok_def fail_def ascii_def)

end
