(* ===== verification/Clients.thy ===== *)
theory Clients
  imports Answers
begin

text \<open>
  \<^verbatim>\<open>unpfs\<close> and all its clients: the depth limit holds for the fids of every connection,
  each client is answered whatever the others send, and no client reaches the data behind
  the fids of another.
\<close>

section \<open>Data of a connection\<close>

text \<open>
  A connection works within the handles \<open>K\<close>: those of its table, of the fids its tasks have
  still to insert, and those its running methods use.
\<close>

definition pc_within :: "nat \<Rightarrow> nat set \<Rightarrow> (nat, 'w unpfs_state) pc \<Rightarrow> bool" where
  "pc_within limit K pc \<longleftrightarrow>
     (\<forall>nf. pc_newfid pc = Some nf \<longrightarrow> fid_aux nf \<in> K) \<and>
     (case pc of Running _ fut \<Rightarrow> calm limit K K fut | _ \<Rightarrow> True)"

definition table_within :: "nat set \<Rightarrow> nat fid_table \<Rightarrow> bool" where
  "table_within K fids \<longleftrightarrow> (\<forall>x f. fids x = Some f \<longrightarrow> fid_aux f \<in> K)"

definition conn_within :: "nat \<Rightarrow> nat set \<Rightarrow> (nat, 'w unpfs_state) conn \<Rightarrow> bool" where
  "conn_within limit K c \<longleftrightarrow>
     table_within K (srv_fids (conn_server c)) \<and>
     (\<forall>t \<in> set (conn_tasks c). pc_within limit K (snd t))"

lemma calm_mono:
  assumes "calm limit H T fut" and "H \<subseteq> K" and "T \<subseteq> K"
  shows "calm limit K K fut"
  using assms(1)
proof (induction fut)
  case (Await w h upd nxt)
  have "held limit K (upd s) \<and> touching K s (upd s) \<and> calm limit K K (nxt s)" if s: "held limit K s" for s
  proof -
    have "held limit H s" using s assms(2) by (auto simp: held_def)
    with Await.prems have step: "held limit H (upd s)" "touching T s (upd s)" "calm limit H T (nxt s)"
      by simp_all
    then have "calm limit K K (nxt s)" by (intro Await.IH) simp_all
    with step s assms(3) show ?thesis
      by (auto simp: held_def touching_def made_def)
  qed
  then show ?case by simp
qed simp

lemma pc_within_mono: "pc_within limit K pc \<Longrightarrow> K \<subseteq> K' \<Longrightarrow> pc_within limit K' pc"
  by (cases pc) (auto simp: pc_within_def intro: calm_mono)

lemma table_within_mono: "table_within K fids \<Longrightarrow> K \<subseteq> K' \<Longrightarrow> table_within K' fids"
  by (auto simp: table_within_def)

text \<open>The handles made between two states.\<close>

definition made_between :: "'w unpfs_state \<Rightarrow> 'w unpfs_state \<Rightarrow> nat set" where
  "made_between s s' = {length (up_cells s) ..< length (up_cells s')}"

text \<open>A step that works within \<open>K\<close>: it keeps all data but that of \<open>K\<close>.\<close>

definition keeps_outside :: "nat set \<Rightarrow> 'w unpfs_state \<Rightarrow> 'w unpfs_state \<Rightarrow> bool" where
  "keeps_outside K s s' \<longleftrightarrow>
     length (up_cells s) \<le> length (up_cells s') \<and>
     (\<forall>a < length (up_cells s). a \<notin> K \<longrightarrow> up_cells s' ! a = up_cells s ! a)"

lemma keeps_outside_same: "up_cells s' = up_cells s \<Longrightarrow> keeps_outside K s s'"
  by (simp add: keeps_outside_def)

lemma advance_spawned_within:
  assumes "advance E out msg Spawned sv k = (pc', sv', k')" and "env_fs E = unpfs S U"
    and "table_within K (srv_fids sv)"
  shows "keeps_outside K (srv_fs sv) (srv_fs sv') \<and>
    pc_within (max_depth U) (K \<union> made_between (srv_fs sv) (srv_fs sv')) pc'"
proof -
  obtain nf s1 where mk: "make_newfid (unpfs S U) (msg_body msg) (srv_fs sv) = (nf, s1)" by fastforce
  have new: "keeps_outside K (srv_fs sv) s1" "\<And>f. nf = Some f \<Longrightarrow> fid_aux f \<in> made_between (srv_fs sv) s1"
    using mk by (auto simp: make_newfid_def unpfs_default_def keeps_outside_def made_between_def nth_append
        split: option.splits)
  show ?thesis
  proof (cases "route (unpfs S U) (srv_fids sv) nf (msg_body msg)")
    case (Inl e)
    with assms(1,2) mk new show ?thesis by (auto simp: advance_def pc_within_def)
  next
    case (Inr fut)
    let ?K = "K \<union> made_between (srv_fs sv) s1"
    have "handles (srv_fids sv) nf \<subseteq> ?K"
      using assms(3) new(2) by (auto simp: handles_def table_within_def ran_def)
    moreover have "rebinds (srv_fids sv) nf (msg_body msg) \<subseteq> ?K"
      using assms(3) new(2) by (auto simp: rebinds_def table_within_def split: fcall.splits)
    ultimately have "calm (max_depth U) ?K ?K fut" by (rule calm_mono [OF unpfs_calm [OF Inr]])
    with Inr assms(1,2) mk new show ?thesis by (auto simp: advance_def pc_within_def)
  qed
qed

lemma advance_within:
  assumes "advance E out msg pc sv k = (pc', sv', k')" and "env_fs E = unpfs S U"
    and "table_within K (srv_fids sv)" and "pc_within (max_depth U) K pc"
    and "held (max_depth U) K (srv_fs sv)"
  shows "keeps_outside K (srv_fs sv) (srv_fs sv') \<and>
    pc_within (max_depth U) (K \<union> made_between (srv_fs sv) (srv_fs sv')) pc'"
proof (cases pc rule: pc_cases)
  case Spawned
  with assms show ?thesis using advance_spawned_within by blast
next
  case (Await nf w h upd nxt)
  then have "held (max_depth U) K (upd (srv_fs sv)) \<and> touching K (srv_fs sv) (upd (srv_fs sv)) \<and>
      calm (max_depth U) K K (nxt (srv_fs sv))"
    using assms(4,5) by (simp add: pc_within_def)
  with Await assms(1,4) show ?thesis
    by (auto simp: pc_within_def keeps_outside_def touching_def made_between_def)
qed (use assms in \<open>auto simp: advance_def pc_within_def keeps_outside_same split: sum.splits prod.splits if_splits\<close>)

lemma advance_table_within:
  assumes "advance E out msg pc sv k = (pc', sv', k')"
    and "table_within K (srv_fids sv)" and "pc_within limit K pc"
  shows "table_within K (srv_fids sv')"
  using advance_table [OF assms(1)] assms(2,3) by (fastforce simp: table_within_def pc_within_def)

lemma conn_step_within:
  assumes "conn_step E lossy c c'" and "env_fs E = unpfs S U" and "conn_within (max_depth U) K c"
    and "held (max_depth U) K (srv_fs (conn_server c))"
  shows "keeps_outside K (srv_fs (conn_server c)) (srv_fs (conn_server c')) \<and>
    conn_within (max_depth U) (K \<union> made_between (srv_fs (conn_server c)) (srv_fs (conn_server c'))) c'"
  using assms(1)
proof (cases rule: conn_task_stepE)
  case recv
  then show ?thesis
    using assms(3)
    by (cases rule: receive_cases) (auto simp: conn_within_def pc_within_def keeps_outside_same made_between_def)
next
  case (task i msg pc pc' sv' k' out)
  let ?K = "K \<union> made_between (srv_fs (conn_server c)) (srv_fs (conn_server c'))"
  have "(msg, pc) \<in> set (conn_tasks c)" using task(1,2) by (metis nth_mem)
  then have within: "table_within K (srv_fids (conn_server c))" "pc_within (max_depth U) K pc"
    using assms(3) by (auto simp: conn_within_def)
  note move = advance_within [OF task(6) assms(2) within assms(4)]
  have "pc_within (max_depth U) ?K (snd t)" if "t \<in> set ((conn_tasks c)[i := (msg, pc')])" for t
    using in_list_update [OF that] move assms(3) task(7)
    by (auto simp: conn_within_def intro: pc_within_mono)
  moreover have "table_within ?K (srv_fids sv')"
    using advance_table_within [OF task(6) within] by (rule table_within_mono) simp
  ultimately show ?thesis using move task(7) by (simp add: conn_within_def)
qed

section \<open>Data of all connections\<close>

text \<open>Each connection works within handles of its own.\<close>

definition apart :: "nat \<Rightarrow> (nat \<Rightarrow> nat set) \<Rightarrow> (nat, 'w unpfs_state) system \<Rightarrow> bool" where
  "apart limit K S \<longleftrightarrow>
     shallow limit (sy_fs S) \<and>
     (\<forall>i < length (sy_conns S). conn_within limit (K i) (sy_conns S ! i) \<and> (\<forall>a \<in> K i. made a (sy_fs S))) \<and>
     (\<forall>i < length (sy_conns S). \<forall>j < length (sy_conns S). i \<noteq> j \<longrightarrow> K i \<inter> K j = {})"

lemma apart_held: "apart limit K S \<Longrightarrow> i < length (sy_conns S) \<Longrightarrow> held limit (K i) (sy_fs S)"
  by (simp add: apart_def held_def)

lemma conn_within_with_fs [simp]: "conn_within limit K (with_fs s c) = conn_within limit K c"
  by (simp add: conn_within_def)

lemma apart_fs:
  "apart limit K S \<Longrightarrow> up_cells s = up_cells (sy_fs S) \<Longrightarrow> apart limit K (S\<lparr>sy_fs := s\<rparr>)"
  by (simp add: apart_def shallow_def made_def)

lemma apart_serve:
  assumes "conn_step E lossy (sys_conn S i) c" and "env_fs E = unpfs H U"
    and "apart (max_depth U) K S" and "i < length (sy_conns S)" and "shallow (max_depth U) (srv_fs (conn_server c))"
  shows "apart (max_depth U) (K(i := K i \<union> made_between (sy_fs S) (srv_fs (conn_server c)))) (put_conn S i c)"
proof -
  let ?s = "srv_fs (conn_server c)"
  have within: "conn_within (max_depth U) (K i) (sys_conn S i)"
    using assms(3,4) by (simp add: apart_def sys_conn_def)
  have step: "keeps_outside (K i) (sy_fs S) ?s"
    "conn_within (max_depth U) (K i \<union> made_between (sy_fs S) ?s) c"
    using conn_step_within [OF assms(1,2) within] apart_held [OF assms(3,4)] by simp_all
  have old: "made a (sy_fs S) \<Longrightarrow> made a ?s \<and> a \<notin> made_between (sy_fs S) ?s" for a
    using step(1) by (auto simp: keeps_outside_def made_def made_between_def)
  have "made a ?s" if "a \<in> made_between (sy_fs S) ?s" for a
    using that by (simp add: made_between_def made_def)
  with assms(3-5) step(2) old show ?thesis
    by (fastforce simp: apart_def put_conn_def nth_list_update)
qed

lemma apart_accept:
  assumes "apart limit K S" and "accept E P S = Some S'"
  shows "apart limit (K(length (sy_conns S) := {})) S'"
  using assms(2)
proof (cases rule: acceptE)
  case (stream st rest)
  have "conn_within limit {} (conn_over E st (sy_fs S))"
    by (simp add: conn_within_def table_within_def conn_over_def conn_start_def)
  with assms(1) stream show ?thesis by (auto simp: apart_def nth_append less_Suc_eq)
next
  case (failed e rest)
  with assms(1) show ?thesis by (simp add: apart_def)
qed

lemma run_served_good:
  assumes "(sys_step E P lossy others)\<^sup>*\<^sup>* (sys_start accepts s) S" and "env_fs E = unpfs H U"
    and "\<And>s s'. others s s' \<Longrightarrow> up_cells s' = up_cells s" and "up_cells s = []"
  shows "served.sys_good U S"
proof -
  have "shallow (max_depth U) s" using assms(4) by (simp add: shallow_def)
  moreover have "shallow (max_depth U) s \<Longrightarrow> shallow (max_depth U) s' \<and> (\<forall>b. made b s \<longrightarrow> made b s')"
    if "others s s'" for s s'
    using assms(3) [OF that] by (simp add: shallow_def made_def)
  ultimately show ?thesis using served.run_sys_good [OF assms(1,2)] by blast
qed

lemma run_apart:
  assumes "(sys_step E P lossy others)\<^sup>*\<^sup>* (sys_start accepts s) S" and "env_fs E = unpfs H U"
    and "\<And>s s'. others s s' \<Longrightarrow> up_cells s' = up_cells s" and "up_cells s = []"
  shows "\<exists>K. apart (max_depth U) K S"
  using assms(1)
proof (induction rule: rtranclp_induct)
  case base
  show ?case using assms(4) by (simp add: apart_def shallow_def)
next
  case (step S S')
  then obtain K where K: "apart (max_depth U) K S" by blast
  have "(sys_step E P lossy others)\<^sup>*\<^sup>* (sys_start accepts s) S'" using step(1,2) by simp
  from run_served_good [OF this assms(2-4)] have shallow: "shallow (max_depth U) (sy_fs S')"
    by (simp add: served.sys_good_def)
  from step(2) show ?case
  proof (cases rule: sys_stepE)
    case listen
    then show ?thesis using apart_accept [OF K] by blast
  next
    case (serve i c)
    then show ?thesis using apart_serve [OF serve(3) assms(2) K serve(2)] shallow by auto
  next
    case (outside s')
    then show ?thesis using apart_fs [OF K] assms(3) by blast
  qed
qed

section \<open>Properties\<close>

text \<open>
  C6. In every state of the server, by whatever requests of however many clients, however
  the pieces of their methods interleave and whatever other processes do to the host in
  between, the data of every fid exists and no fid of any client lies deeper than
  \<^verbatim>\<open>max_depth\<close>.
\<close>

theorem every_fid_within_max_depth:
  assumes "(sys_step E P lossy others)\<^sup>*\<^sup>* (sys_start accepts s) S" and "env_fs E = unpfs H U"
    and "\<And>s s'. others s s' \<Longrightarrow> up_cells s' = up_cells s" and "up_cells s = []"
    and "i < length (sy_conns S)" and "srv_fids (conn_server (sy_conns S ! i)) x = Some f"
  shows "fid_aux f < length (up_cells (sy_fs S)) \<and> ufid_depth (cell f (sy_fs S)) \<le> max_depth U"
proof -
  have "served.sys_good U S" by (rule run_served_good [OF assms(1-4)])
  with assms(5,6) show ?thesis
    by (fastforce simp: served.sys_good_def served.conn_good_def served.table_valid_def ran_def
        shallow_def made_def cell_def sys_conn_def)
qed

text \<open>
  C7. Clients are isolated. No fid of one client ever shares its data with a fid of another,
  and no step of another client's connection changes the path, the open file or the depth
  behind a fid, whatever that client sends.
\<close>

theorem clients_are_isolated:
  assumes "(sys_step E P lossy others)\<^sup>*\<^sup>* (sys_start accepts s) S" and "env_fs E = unpfs H U"
    and "\<And>s s'. others s s' \<Longrightarrow> up_cells s' = up_cells s" and "up_cells s = []"
    and "i < length (sy_conns S)" and "j < length (sy_conns S)" and "i \<noteq> j"
    and "srv_fids (conn_server (sy_conns S ! i)) x = Some f"
  shows "(\<forall>y g. srv_fids (conn_server (sy_conns S ! j)) y = Some g \<longrightarrow> fid_aux f \<noteq> fid_aux g) \<and>
    (\<forall>c. conn_step E (lossy j) (sys_conn S j) c \<longrightarrow> cell f (sy_fs (put_conn S j c)) = cell f (sy_fs S))"
proof -
  obtain K where K: "apart (max_depth U) K S" using run_apart [OF assms(1-4)] ..
  have within: "conn_within (max_depth U) (K i) (sy_conns S ! i)" "conn_within (max_depth U) (K j) (sy_conns S ! j)"
    "K i \<inter> K j = {}" "fid_aux f \<in> K i" "made (fid_aux f) (sy_fs S)"
    using K assms(5-8) by (auto simp: apart_def conn_within_def table_within_def)
  then have "cell f (srv_fs (conn_server c)) = cell f (sy_fs S)" if "conn_step E (lossy j) (sys_conn S j) c" for c
    using conn_step_within [OF that assms(2), of "K j"] apart_held [OF K assms(6)]
    by (auto simp: keeps_outside_def cell_def made_def sys_conn_def)
  with within show ?thesis
    by (auto simp: conn_within_def table_within_def)
qed

text \<open>
  C11. The whole server answers every client: one that sends any number of well-formed
  requests none of which asks for more than fits a frame, to \<^verbatim>\<open>unpfs\<close> on a host that keeps
  the limits of names and buffers, and then closes its side, gets exactly one reply for each
  once its connection is quiet, whatever bytes the other clients send, however all requests
  interleave and whatever others do to the host meanwhile.
\<close>

theorem unpfs_answers_every_client:
  assumes "crates_laws (env_crates E)" and "codec_laws (env_codec E)" and "env_buffer E = growing"
    and "env_fs E = unpfs H U" and "bounded_host H"
    and "(sys_step E P lossy others)\<^sup>*\<^sup>* (sys_start accepts s) S"
    and "i < length (sy_conns S)" and "\<not> lossy i" and "conn_quiet (sy_conns S ! i)"
    and "accepted accepts ! i = request_bytes msgs"
    and "list_all carried msgs" and "list_all (\<lambda>m. length (wire_Msg m) + 4 \<le> max_frame_length) msgs"
    and "list_all (\<lambda>m. asks_for (msg_body m) + 7 \<le> max_frame_length) msgs"
  shows "conn_result (sy_conns S ! i) = Some (Inr ()) \<and> requests (sy_conns S ! i) = msgs \<and>
    one_reply_each msgs (conn_sent (sy_conns S ! i))"
proof -
  have "list_all (\<lambda>m. answerable (env_fs E) (msg_body m)) msgs"
    using assms(4,11,13) by (auto simp: list_all_iff carried_def intro: unpfs_answerable [OF assms(5)])
  with assms(1-3,6-12) show ?thesis by (intro client_answered)
qed

section \<open>Witnesses\<close>

text \<open>Two clients attach, each to its own fid 5.\<close>

abbreviation sample_run :: "(nat, unit unpfs_state) system \<Rightarrow> (nat, unit unpfs_state) system \<Rightarrow> bool" where
  "sample_run \<equiv> (sys_step unpfs_env Tcp (\<lambda>_. False) (\<lambda>_ _. False))\<^sup>*\<^sup>*"

definition two_streams :: "(io_error + bytes) list" where
  "two_streams = [Inr (request_bytes [sample_attach]), Inr (request_bytes [sample_attach])]"

lemma sample_conn_over:
  "conn_over unpfs_env (request_bytes [sample_attach]) s = conn_start [Inr (wire_Msg sample_attach)] s"
  using request_items [OF documented_codec_laws, of "[sample_attach]"]
  by (simp add: conn_over_def unpfs_env_def length_sample_attach max_frame_length_def)

lemma attaches:
  assumes "i < length (sy_conns S)" and "sy_conns S ! i = conn_over unpfs_env (request_bytes [sample_attach]) s"
    and "\<And>j. j < length (sy_conns S) \<Longrightarrow> j \<noteq> i \<Longrightarrow> conn_held (sy_conns S ! j) = []"
  shows "\<exists>c f. sample_run S (put_conn S i c) \<and> srv_fids (conn_server c) 5 = Some f \<and>
    requests c = [sample_attach] \<and> conn_held c = []"
proof -
  have start: "sys_conn S i = conn_start [Inr (wire_Msg sample_attach)] (sy_fs S)"
    using assms(2) by (simp add: sample_conn_over sys_conn_def conn_start_def with_fs_def)
  obtain c f where c: "(conn_step unpfs_env False)\<^sup>*\<^sup>* (sys_conn S i) c" "srv_fids (conn_server c) 5 = Some f"
    "requests c = [sample_attach]" "conn_held c = []"
    using unpfs_attached [of "sy_fs S"] start by auto
  moreover have "c \<noteq> sys_conn S i" using c(2) start by (auto simp: conn_start_def)
  ultimately show ?thesis using run_conn [where lossy = "\<lambda>_. False", OF c(1) assms(1,3)] by blast
qed

lemma accepts_stream:
  "sy_result S = None \<Longrightarrow> sy_accepts S = Inr st # rest \<Longrightarrow>
     sample_run S (S\<lparr>sy_accepts := rest, sy_conns := sy_conns S @ [conn_over unpfs_env st (sy_fs S)]\<rparr>)"
  by (rule r_into_rtranclp, rule sys_step.listen) (simp add: accept_def)

lemma two_clients:
  "\<exists>S f g. sample_run (sys_start two_streams no_cells) S \<and> length (sy_conns S) = 2 \<and>
     srv_fids (conn_server (sy_conns S ! 0)) 5 = Some f \<and> srv_fids (conn_server (sy_conns S ! 1)) 5 = Some g \<and>
     requests (sy_conns S ! 1) = [sample_attach]"
proof -
  let ?over = "\<lambda>s. conn_over unpfs_env (request_bytes [sample_attach]) s"
  let ?S0 = "sys_start two_streams no_cells"
  let ?S1 = "?S0\<lparr>sy_accepts := tl two_streams, sy_conns := [?over no_cells]\<rparr>"
  have r1: "sample_run ?S0 ?S1"
    using accepts_stream [of ?S0] by (simp add: two_streams_def)
  obtain c f where c: "sample_run ?S1 (put_conn ?S1 0 c)" "srv_fids (conn_server c) 5 = Some f" "conn_held c = []"
    using attaches [of 0 ?S1 no_cells] by auto
  let ?S2 = "put_conn ?S1 0 c"
  let ?S3 = "?S2\<lparr>sy_accepts := [], sy_conns := sy_conns ?S2 @ [?over (sy_fs ?S2)]\<rparr>"
  have r2: "sample_run ?S2 ?S3"
    using accepts_stream [of ?S2] by (simp add: two_streams_def)
  obtain d g where d: "sample_run ?S3 (put_conn ?S3 1 d)" "srv_fids (conn_server d) 5 = Some g"
    "requests d = [sample_attach]"
    using attaches [of 1 ?S3 "sy_fs ?S2"] c(3) by (auto simp: nth_append put_conn_def less_Suc_eq)
  from r1 c(1) r2 d(1) have "sample_run ?S0 (put_conn ?S3 1 d)" by (meson rtranclp_trans)
  moreover have "length (sy_conns (put_conn ?S3 1 d)) = 2"
    "sy_conns (put_conn ?S3 1 d) ! 0 = c" "sy_conns (put_conn ?S3 1 d) ! 1 = d"
    by (simp_all add: put_conn_def)
  ultimately show ?thesis using c(2) d(2,3) by metis
qed

lemma unpfs_env_fs: "env_fs unpfs_env = unpfs sample_os sample_unpfs"
  by (simp add: unpfs_env_def)

theorem every_fid_within_max_depth_witness:
  "\<exists>S f. sample_run (sys_start two_streams no_cells) S \<and> length (sy_conns S) = 2 \<and>
     srv_fids (conn_server (sy_conns S ! 1)) 5 = Some f \<and> ufid_depth (cell f (sy_fs S)) \<le> 2"
proof -
  obtain S f where S: "sample_run (sys_start two_streams no_cells) S" "length (sy_conns S) = 2"
    "srv_fids (conn_server (sy_conns S ! 1)) 5 = Some f"
    using two_clients by blast
  have "ufid_depth (cell f (sy_fs S)) \<le> 2"
    using every_fid_within_max_depth [OF S(1) unpfs_env_fs _ _ _ S(3)] S(2)
    by (simp add: no_cells_def sample_unpfs_def)
  with S show ?thesis by blast
qed

theorem clients_are_isolated_witness:
  "\<exists>S f g. sample_run (sys_start two_streams no_cells) S \<and>
     srv_fids (conn_server (sy_conns S ! 0)) 5 = Some f \<and> srv_fids (conn_server (sy_conns S ! 1)) 5 = Some g \<and>
     fid_aux f \<noteq> fid_aux g"
proof -
  obtain S f g where S: "sample_run (sys_start two_streams no_cells) S" "length (sy_conns S) = 2"
    "srv_fids (conn_server (sy_conns S ! 0)) 5 = Some f" "srv_fids (conn_server (sy_conns S ! 1)) 5 = Some g"
    using two_clients by blast
  have "fid_aux f \<noteq> fid_aux g"
    using clients_are_isolated [OF S(1) unpfs_env_fs _ _ _ _ _ S(3), of 1] S(2,4)
    by (simp add: no_cells_def)
  with S show ?thesis by blast
qed

theorem unpfs_answers_every_client_witness:
  "\<exists>S. sample_run (sys_start two_streams no_cells) S \<and> length (sy_conns S) = 2 \<and>
     length (conn_sent (sy_conns S ! 1)) = 1"
proof -
  obtain S where S: "sample_run (sys_start two_streams no_cells) S" "sys_quiet unpfs_env Tcp S"
    using system_settles [OF unpfs_env_disciplined sys_methods_start] by blast
  then have two: "length (sy_conns S) = 2"
    using listener_done [OF S(1)] by (simp add: sys_quiet_def listener_def two_streams_def Let_def)
  have asks: "asks_for (msg_body sample_attach) = 0" by (simp add: asks_for_def sample_attach_def)
  have "one_reply_each [sample_attach] (conn_sent (sy_conns S ! 1))"
    using unpfs_answers_every_client [OF _ _ _ unpfs_env_fs sample_bounded S(1), of 1 "[sample_attach]"] S(2) two
    by (simp add: unpfs_env_def documented_crates_laws documented_codec_laws sample_attach_carried asks
        length_sample_attach max_frame_length_def accepted_def two_streams_def sys_quiet_def list_all_length)
  with one_reply_each_length [of "[sample_attach]" "conn_sent (sy_conns S ! 1)"] S(1) two show ?thesis by auto
qed

end
