(* ===== verification/Confine.thy ===== *)
theory Confine
  imports Clients
begin

text \<open>
  What keeps a client of \<^verbatim>\<open>unpfs\<close> inside the exported directory: only its own names. Nothing
  in the server checks them, but as long as one client sends plain names, all its fids lie
  below the root of the export, whatever the other clients send.
\<close>

section \<open>Paths below a directory\<close>

text \<open>The directory itself, or plain names behind it with separators in between.\<close>

definition as_directory :: "path \<Rightarrow> path" where
  "as_directory root = (if root = [] \<or> last root = slash then root else root @ [slash])"

definition below :: "path \<Rightarrow> path \<Rightarrow> bool" where
  "below root p \<longleftrightarrow> p = root \<or>
     (\<exists>n names. list_all plain_name (n # names) \<and> p = as_directory root @ n @ concat (map ((#) slash) names))"

lemma below_root [simp]: "below root root"
  by (simp add: below_def)

lemma plain_name_end: "plain_name n \<Longrightarrow> n \<noteq> [] \<and> hd n \<noteq> slash \<and> last n \<noteq> slash"
  unfolding plain_name_def by (metis hd_in_set last_in_set)

lemma plain_names_end:
  assumes "list_all plain_name (n # names)"
  shows "n @ concat (map ((#) slash) names) \<noteq> [] \<and> last (n @ concat (map ((#) slash) names)) \<noteq> slash"
proof (cases names rule: rev_cases)
  case Nil
  with assms plain_name_end [of n] show ?thesis by simp
next
  case (snoc ns m)
  with assms plain_name_end [of m] show ?thesis by simp
qed

lemma below_push:
  assumes "below root p" and "plain_name n"
  shows "below root (path_push p n)"
proof -
  have relative: "\<not> is_absolute n" using plain_name_end [OF assms(2)] by (simp add: is_absolute_def)
  consider "p = root" | (names) m names where "list_all plain_name (m # names)"
      "p = as_directory root @ m @ concat (map ((#) slash) names)"
    using assms(1) by (auto simp: below_def)
  then show ?thesis
  proof cases
    case 1
    then have "path_push p n = as_directory root @ n @ concat (map ((#) slash) [])"
      using relative by (auto simp: path_push_def as_directory_def)
    with assms(2) show ?thesis unfolding below_def by (intro disjI2 exI [of _ n] exI [of _ "[]"]) simp
  next
    case (names m ns)
    then have "p \<noteq> []" "last p \<noteq> slash" using plain_names_end [OF names(1)] by simp_all
    then have "path_push p n = as_directory root @ m @ concat (map ((#) slash) (ns @ [n]))"
      using names(2) assms(2) by (simp add: path_push_plain)
    moreover have "list_all plain_name (m # ns @ [n])" using names(1) assms(2) by simp
    ultimately show ?thesis unfolding below_def by blast
  qed
qed

section \<open>One request\<close>

text \<open>The names of a request that move a fid.\<close>

definition plain_request :: "fcall \<Rightarrow> bool" where
  "plain_request body \<longleftrightarrow>
     (case body of
        TWalk fid newfid names \<Rightarrow> list_all plain_name names
      | TlCreate fid name flags mode gid \<Rightarrow> plain_name name
      | _ \<Rightarrow> True)"

text \<open>
  What every step of a client's own requests keeps, for the handles \<open>H\<close>: their data, and the
  paths that lie below the root.
\<close>

definition inside :: "path \<Rightarrow> nat \<Rightarrow> 'w unpfs_state \<Rightarrow> bool" where
  "inside root a s \<longleftrightarrow> below root (ufid_realpath (up_cells s ! a))"

definition keeps_inside :: "path \<Rightarrow> nat \<Rightarrow> nat set \<Rightarrow> 'w unpfs_state \<Rightarrow> 'w unpfs_state \<Rightarrow> bool" where
  "keeps_inside root limit H s s' \<longleftrightarrow>
     (held limit H s \<longrightarrow> held limit H s') \<and> (\<forall>a \<in> H. inside root a s \<longrightarrow> inside root a s')"

lemma keeps_inside_refl: "reflp (keeps_inside root limit H)"
  by (simp add: reflp_def keeps_inside_def)

lemma keeps_inside_trans: "transp (keeps_inside root limit H)"
  unfolding transp_def keeps_inside_def by blast

definition bound_inside :: "path \<Rightarrow> ufid option \<Rightarrow> 'w unpfs_state \<Rightarrow> bool" where
  "bound_inside root newfid s \<longleftrightarrow> (\<forall>f. newfid = Some f \<longrightarrow> inside root (fid_aux f) s)"

text \<open>A request that ends with success leaves its new fid inside.\<close>

definition lands :: "path \<Rightarrow> ufid option \<Rightarrow> error + fcall \<Rightarrow> 'w unpfs_state \<Rightarrow> bool" where
  "lands root newfid r s \<longleftrightarrow> (case r of Inl e \<Rightarrow> True | Inr m \<Rightarrow> bound_inside root newfid s)"

lemma lands_simps [simp]: "lands root newfid (Inl e) s" "lands root newfid (Inr m) s = bound_inside root newfid s"
  by (simp_all add: lands_def)

abbreviation confined ::
  "path \<Rightarrow> nat \<Rightarrow> nat set \<Rightarrow> ufid option \<Rightarrow> ('w, fcall) unpfs_call \<Rightarrow> 'w unpfs_state \<Rightarrow> bool" where
  "confined root limit H newfid \<equiv>
     ensures (keeps_inside root limit H) (lands root newfid)"

text \<open>The state after interference and some steps of the request itself.\<close>

definition later_state :: "path \<Rightarrow> nat \<Rightarrow> nat set \<Rightarrow> 'w unpfs_state \<Rightarrow> 'w unpfs_state \<Rightarrow> bool" where
  "later_state root limit H s s' \<longleftrightarrow> held limit H s' \<and> (\<forall>a \<in> H. inside root a s \<longrightarrow> inside root a s')"

lemma later_state_keeps:
  "later_state root limit H s s' \<Longrightarrow> keeps_inside root limit H s' s'' \<Longrightarrow> later_state root limit H s s''"
  unfolding later_state_def keeps_inside_def by blast

lemma later_state_refl: "held limit H s \<Longrightarrow> later_state root limit H s s"
  by (simp add: later_state_def)

lemma touching_inside: "touching {} s s' \<Longrightarrow> inside root a s' = inside root a s"
  by (simp add: touching_def inside_def)

lemma later_state_touching:
  "later_state root limit H s s' \<Longrightarrow> held limit H s'' \<Longrightarrow> touching {} s' s'' \<Longrightarrow> later_state root limit H s s''"
  by (simp add: later_state_def touching_inside)

lemma confined_Error [simp]: "confined root limit H newfid (Ready (Inl e)) s"
  by simp

lemma confined_done:
  assumes "bound_inside root newfid s" and "fid_aux ` set_option newfid \<subseteq> H"
  shows "confined root limit H newfid (done_with m) s"
  using assms by (auto simp: bound_inside_def keeps_inside_def)

text \<open>A part that changes no data.\<close>

lemma confined_calm:
  assumes calm: "steady (held limit H) (touching {}) (\<lambda>r. case r of Inl e \<Rightarrow> True | Inr x \<Rightarrow> P x) p"
    and "held limit H s"
    and "\<And>x s'. P x \<Longrightarrow> later_state root limit H s s' \<Longrightarrow> confined root limit H newfid (k x) s'"
  shows "confined root limit H newfid (await_ok p k) s"
proof (rule ensures_await_ok [OF keeps_inside_refl])
  have "steady (later_state root limit H s) (touching {}) (\<lambda>r. case r of Inl e \<Rightarrow> True | Inr x \<Rightarrow> P x) p"
    using calm
  proof (induction p)
    case (Await w h upd nxt)
    then show ?case
      by (auto simp: later_state_def touching_inside)
  qed simp
  then have "ensures (keeps_inside root limit H)
      (\<lambda>r s'. later_state root limit H s s' \<and> (case r of Inl e \<Rightarrow> True | Inr x \<Rightarrow> P x)) p s"
    using later_state_refl [OF assms(2)]
    by (rule ensures_steady) (auto intro: later_state_keeps simp: keeps_inside_def later_state_def touching_inside)
  then show "ensures (keeps_inside root limit H)
      (\<lambda>r s. case r of Inl e \<Rightarrow> \<forall>s'. keeps_inside root limit H s s' \<longrightarrow> lands root newfid (Inl e) s'
        | Inr x \<Rightarrow> confined root limit H newfid (k x) s) p s"
    by (rule ensures_mono) (auto intro: assms(3) split: sum.splits)
qed

text \<open>Reading the path of a fid.\<close>

lemma confined_path:
  assumes "inside root (fid_aux f) s" and "fid_aux f \<in> H" and "held limit H s"
    and "\<And>p s'. below root p \<Longrightarrow> later_state root limit H s s' \<Longrightarrow> confined root limit H newfid (k p) s'"
  shows "confined root limit H newfid (await_ok (get f ''realpath'' ufid_realpath) k) s"
proof (rule ensures_await_ok [OF keeps_inside_refl], rule ensures_piece)
  fix s' s'' assume s': "keeps_inside root limit H s s'" and s'': "keeps_inside root limit H (snd (peek f ufid_realpath s')) s''"
  have "below root (ufid_realpath (cell f s'))"
    using s' assms(1,2) by (simp add: keeps_inside_def inside_def cell_def)
  moreover have "later_state root limit H s s''"
    using s' s'' later_state_refl [OF assms(3)] by (auto simp: peek_def intro: later_state_keeps)
  ultimately show "case fst (peek f ufid_realpath s') of
      Inl e \<Rightarrow> \<forall>s'. keeps_inside root limit H s'' s' \<longrightarrow> lands root newfid (Inl e) s'
    | Inr x \<Rightarrow> confined root limit H newfid (k x) s''"
    using assms(4) by (simp add: peek_def)
qed (simp add: peek_def keeps_inside_def)

text \<open>Changing the data of a fid.\<close>

lemma poke_later:
  fixes s :: "'w unpfs_state"
  assumes "fid_aux f \<in> H" and "later_state root limit H s s'"
    and depth: "\<And>c. ufid_depth c \<le> limit \<Longrightarrow> ufid_depth (upd c) \<le> limit"
    and path: "\<And>c. below root (ufid_realpath c) \<Longrightarrow> below root (ufid_realpath (upd c))"
  shows "keeps_inside root limit H s' (snd (poke f upd s'))"
    and "later_state root limit H s (snd (poke f upd s'))"
proof -
  have "held limit H s'" using assms(2) by (simp add: later_state_def)
  moreover have "calm limit H {fid_aux f} (put f fld upd :: ('w, unit) unpfs_call)"
    using assms(1) depth by (intro calm_put) simp_all
  ultimately have "held limit H (snd (poke f upd s'))" by (simp add: one_piece_def)
  moreover have "inside root a (snd (poke f upd s'))" if "a \<in> H" "inside root a s'" for a
    using that path \<open>held limit H s'\<close>
    by (cases "a = fid_aux f") (auto simp: inside_def poke_def cell_def held_def made_def)
  ultimately show "keeps_inside root limit H s' (snd (poke f upd s'))" by (simp add: keeps_inside_def)
  with assms(2) show "later_state root limit H s (snd (poke f upd s'))" by (rule later_state_keeps)
qed

lemma confined_put:
  assumes "fid_aux f \<in> H" and "held limit H s"
    and "\<And>c. ufid_depth c \<le> limit \<Longrightarrow> ufid_depth (upd c) \<le> limit"
    and "\<And>c. below root (ufid_realpath c) \<Longrightarrow> below root (ufid_realpath (upd c))"
    and "\<And>s'. later_state root limit H s s' \<Longrightarrow>
      ((\<And>c. below root (ufid_realpath (upd c))) \<Longrightarrow> inside root (fid_aux f) s') \<Longrightarrow>
      confined root limit H newfid (k ()) s'"
  shows "confined root limit H newfid (await_ok (put f fld upd) k) s"
proof (rule ensures_await_ok [OF keeps_inside_refl], rule ensures_piece)
  fix s' assume s': "keeps_inside root limit H s s'"
  then have later: "later_state root limit H s s'"
    using later_state_refl [OF assms(2)] by (blast intro: later_state_keeps)
  note poked = poke_later [OF assms(1) later assms(3,4)]
  show "keeps_inside root limit H s' (snd (poke f upd s'))" by (rule poked(1))
  fix s'' assume s'': "keeps_inside root limit H (snd (poke f upd s')) s''"
  have "later_state root limit H s s''" using poked(2) s'' by (rule later_state_keeps)
  moreover have "inside root (fid_aux f) s''" if "\<And>c. below root (ufid_realpath (upd c))"
  proof -
    have "fid_aux f < length (up_cells s')" using later assms(1) by (auto simp: later_state_def held_def made_def)
    then have "inside root (fid_aux f) (snd (poke f upd s'))" using that by (simp add: inside_def poke_def)
    with s'' assms(1) show ?thesis by (simp add: keeps_inside_def)
  qed
  ultimately show "case fst (poke f upd s') of
      Inl e \<Rightarrow> \<forall>s'. keeps_inside root limit H s'' s' \<longrightarrow> lands root newfid (Inl e) s'
    | Inr x \<Rightarrow> confined root limit H newfid (k x) s''"
    using assms(5) by (simp add: poke_def)
qed

section \<open>The methods\<close>

lemma later_inside: "later_state root limit H s s' \<Longrightarrow> a \<in> H \<Longrightarrow> inside root a s \<Longrightarrow> inside root a s'"
  by (simp add: later_state_def)

lemma later_held: "later_state root limit H s s' \<Longrightarrow> held limit H s'"
  by (simp add: later_state_def)

lemma host_steady: "steady (held limit H) (touching {}) (\<lambda>r. case r of Inl e \<Rightarrow> True | Inr x \<Rightarrow> True) (host op)"
  using calm_looks [OF looks_pieces(2), where w = None and T = "{}"] by (rule steady_mono) (simp split: sum.splits)

lemma confined_host:
  "held limit H s \<Longrightarrow>
   (\<And>x s'. later_state root limit H s s' \<Longrightarrow> confined root limit H newfid (k x) s') \<Longrightarrow>
     confined root limit H newfid (await_ok (host op) k) s"
  by (rule confined_calm [OF host_steady])

lemma confined_rattach:
  assumes "fid_aux f \<in> H" and "held limit H s"
  shows "confined (realroot U) limit H (Some f) (unpfs_rattach S U f afid uname aname n) s"
  unfolding unpfs_rattach_def
proof (rule confined_put [OF assms], goal_cases depth path rest)
  case (rest s1)
  then have s1: "held limit H s1" "inside (realroot U) (fid_aux f) s1"
    by (auto dest: later_held)
  show ?case
  proof (rule confined_put [OF assms(1) s1(1)], goal_cases depth path rest)
    case (rest s2)
    then have s2: "held limit H s2" "inside (realroot U) (fid_aux f) s2"
      using s1(2) assms(1) by (auto dest: later_held later_inside)
    show ?case
      by (rule confined_host [OF s2(1)], rule confined_done)
        (use s2(2) assms(1) in \<open>auto simp: bound_inside_def dest: later_inside\<close>)
  qed simp_all
qed simp_all

lemma walk_loop_inside:
  shows "below root p \<Longrightarrow> d \<le> limit \<Longrightarrow> list_all plain_name names \<Longrightarrow>
    steady (held limit H) (touching {})
      (\<lambda>r. case r of Inl e \<Rightarrow> True | Inr (p', d', qs') \<Rightarrow> below root p' \<and> d' \<le> limit)
      (walk_loop S limit first names p d qs)"
proof (induction names arbitrary: first p d qs)
  case (Cons name names)
  have p': "below root (path_push p name)" using Cons.prems by (simp add: below_push)
  show ?case
  proof (cases "step_depth limit d name")
    case (Some d')
    then have "d' \<le> limit" using Cons.prems(2) by (rule step_depth_le)
    with Some Cons p' show ?thesis
      by (simp add: walk_loop.simps, intro steady_await [OF calm_looks [OF looks_pieces(2)]]) (simp split: sum.splits)
  qed (simp add: walk_loop.simps)
qed (simp add: walk_loop.simps)

lemma confined_depth:
  assumes "fid_aux f \<in> H" and "held limit H s"
    and "\<And>d s'. d \<le> limit \<Longrightarrow> later_state root limit H s s' \<Longrightarrow> confined root limit H newfid (k d) s'"
  shows "confined root limit H newfid (await_ok (get f ''depth'' ufid_depth) k) s"
proof (rule confined_calm [OF _ assms(2,3)])
  show "steady (held limit H) (touching {}) (\<lambda>r. case r of Inl e \<Rightarrow> True | Inr d \<Rightarrow> d \<le> limit) (get f ''depth'' ufid_depth)"
    by (rule steady_piece) (simp add: peek_def held_cell [OF _ assms(1)] touching_def)
qed

lemma confined_rwalk:
  assumes "list_all plain_name names"
    and "fid_aux f \<in> H" and "inside root (fid_aux f) s" and "fid_aux newfid \<in> H" and "held (max_depth U) H s"
  shows "confined root (max_depth U) H (Some newfid) (unpfs_rwalk S U f newfid names) s"
  unfolding unpfs_rwalk_def
proof (rule confined_path [OF assms(3,2,5)])
  fix p s1 assume p: "below root p" and s1: "later_state root (max_depth U) H s s1"
  show "confined root (max_depth U) H (Some newfid)
      (await_ok (get f ''depth'' ufid_depth) (\<lambda>current_depth.
       await_ok (walk_loop S (max_depth U) True names p current_depth []) (\<lambda>(p', new_depth, wqids).
       await_ok (put newfid ''realpath'' (ufid_realpath_update (\<lambda>_. p'))) (\<lambda>_.
       await_ok (put newfid ''depth'' (ufid_depth_update (\<lambda>_. new_depth))) (\<lambda>_.
       done_with (RWalk wqids)))))) s1"
  proof (rule confined_depth [OF assms(2) later_held [OF s1]])
    fix d s2 assume d: "d \<le> max_depth U" and s2: "later_state root (max_depth U) H s1 s2"
    let ?put = "\<lambda>(p', new_depth, wqids).
       await_ok (put newfid ''realpath'' (ufid_realpath_update (\<lambda>_. p'))) (\<lambda>_.
       await_ok (put newfid ''depth'' (ufid_depth_update (\<lambda>_. new_depth))) (\<lambda>_.
       done_with (RWalk wqids)))"
    show "confined root (max_depth U) H (Some newfid)
        (await_ok (walk_loop S (max_depth U) True names p d []) ?put) s2"
    proof (rule confined_calm [where P = "\<lambda>(p', d', qs'). below root p' \<and> d' \<le> max_depth U"])
      show "steady (held (max_depth U) H) (touching {})
          (\<lambda>r. case r of Inl e \<Rightarrow> True | Inr x \<Rightarrow> case x of (p', d', qs') \<Rightarrow> below root p' \<and> d' \<le> max_depth U)
          (walk_loop S (max_depth U) True names p d [])"
        by (rule walk_loop_inside [OF p d assms(1)])
      show "held (max_depth U) H s2" using s2 by (rule later_held)
      fix x :: "path \<times> nat \<times> QId list" and s3
      assume "case x of (p', d', qs') \<Rightarrow> below root p' \<and> d' \<le> max_depth U"
        and s3: "later_state root (max_depth U) H s2 s3"
      then obtain p' d' qs' where x: "x = (p', d', qs')" "below root p'" "d' \<le> max_depth U" by (cases x) auto
      show "confined root (max_depth U) H (Some newfid) (?put x) s3"
        unfolding x(1) prod.case
      proof (rule confined_put [OF assms(4) later_held [OF s3]], goal_cases depth path rest)
        case (rest s4)
        then have s4: "held (max_depth U) H s4" "inside root (fid_aux newfid) s4"
          using x(2) by (auto dest: later_held)
        show ?case
        proof (rule confined_put [OF assms(4) s4(1)], goal_cases depth path rest)
          case (rest s5)
          then show ?case
            by (intro confined_done) (use s4(2) assms(4) in \<open>auto simp: bound_inside_def dest: later_inside\<close>)
        qed (simp_all add: x(3))
      qed (simp_all add: x(2))
    qed
  qed
qed

lemma confined_rlopen:
  assumes "fid_aux f \<in> H" and "inside root (fid_aux f) s" and "held limit H s"
  shows "confined root limit H None (unpfs_rlopen S f flags) s"
  unfolding unpfs_rlopen_def
proof (rule confined_path [OF assms(2,1,3)])
  fix p s1 assume s1: "later_state root limit H s s1"
  let ?open = "\<lambda>qid. when_set (qid_typ qid AND QIdType_DIR \<noteq> QIdType_DIR)
      (await_ok (host (nix_call (os_open S p (oflag_truncate S (flags AND UNIX_FLAGS S)) (mode_truncate S 0)))) (\<lambda>h.
       put f ''file'' (ufid_file_update (\<lambda>_. Some h))))"
  have opened: "confined root limit H None (await_ok (?open qid) (\<lambda>_. done_with (RlOpen qid 0))) s2"
    if "held limit H s2" for qid s2
  proof (cases "qid_typ qid AND QIdType_DIR \<noteq> QIdType_DIR")
    case True
    have "confined root limit H None
        (await_ok (put f ''file'' (ufid_file_update (\<lambda>_. Some h))) (\<lambda>_. done_with (RlOpen qid 0))) s3"
      if "later_state root limit H s2 s3" for h s3
      by (rule confined_put [OF assms(1) later_held [OF that]]) (simp_all add: bound_inside_def)
    then show ?thesis
      unfolding when_set_def if_P [OF True] await_ok_assoc by (rule confined_host [OF \<open>held limit H s2\<close>])
  qed (simp add: when_set_def bound_inside_def)
  show "confined root limit H None
      (await_ok (host (get_qid S p)) (\<lambda>qid. await_ok (?open qid) (\<lambda>_. done_with (RlOpen qid 0)))) s1"
    by (rule confined_host [OF later_held [OF s1]]) (rule opened [OF later_held])
qed

lemma confined_rlcreate:
  assumes "plain_name name"
    and "fid_aux f \<in> H" and "inside root (fid_aux f) s" and "held limit H s"
  shows "confined root limit H None (unpfs_rlcreate S f name flags mode gid) s"
  unfolding unpfs_rlcreate_def
proof (rule confined_path [OF assms(3,2,4)])
  fix p0 s1 assume p0: "below root p0" and s1: "later_state root limit H s s1"
  let ?p = "path_join p0 name"
  have p: "below root ?p" using below_push [OF p0 assms(1)] by (simp add: path_join_def)
  have bind: "confined root limit H None
      (await_ok (put f ''realpath'' (ufid_realpath_update (\<lambda>_. ?p))) (\<lambda>_.
       await_ok (put f ''file'' (ufid_file_update (\<lambda>_. Some h))) (\<lambda>_. done_with (RlCreate qid 0)))) s2"
    if "held limit H s2" for h qid s2
  proof (rule confined_put [OF assms(2) that], goal_cases depth path rest)
    case (rest s3)
    show ?case
      by (rule confined_put [OF assms(2) later_held [OF rest(1)]]) (simp_all add: bound_inside_def)
  qed (simp_all add: p)
  show "confined root limit H None
      (let p = ?p in
       await_ok (host (nix_call (os_open S p (oflag_truncate S (flags AND UNIX_FLAGS S)) (mode_truncate S mode)))) (\<lambda>h.
       await_ok (host (get_qid S p)) (\<lambda>qid.
       await_ok (put f ''realpath'' (ufid_realpath_update (\<lambda>_. p))) (\<lambda>_.
       await_ok (put f ''file'' (ufid_file_update (\<lambda>_. Some h))) (\<lambda>_.
       done_with (RlCreate qid 0)))))) s1"
    unfolding Let_def
    by (rule confined_host [OF later_held [OF s1]], rule confined_host [OF later_held])
      (assumption, rule bind [OF later_held])
qed

text \<open>All other methods change no data at all.\<close>

lemma confined_other:
  assumes "calm limit H {} fut" and "held limit H s"
  shows "confined root limit H None fut s"
proof -
  have "ensures (keeps_inside root limit H) (\<lambda>r s. held limit H s \<and> True) fut s"
    by (rule ensures_steady [OF assms]) (auto simp: keeps_inside_def touching_inside)
  then show ?thesis
    by (rule ensures_mono) (simp add: lands_def bound_inside_def split: sum.splits)
qed

lemma unpfs_confined:
  assumes route: "route (unpfs S U) fids newfid body = Inr fut"
    and "plain_request body"
    and held: "held (max_depth U) (handles fids newfid) s"
    and table: "\<And>x f. fids x = Some f \<Longrightarrow> inside (realroot U) (fid_aux f) s"
    and new: "newfid_of body = None \<Longrightarrow> newfid = None"
  shows "confined (realroot U) (max_depth U) (handles fids newfid) newfid fut s"
proof (cases "newfid_of body")
  case None
  then have nf: "newfid = None" by (rule new)
  show ?thesis
  proof (cases "rebinds fids newfid body = {}")
    case True
    with unpfs_calm [OF route] held nf show ?thesis by (auto intro: confined_other)
  next
    case False
    then show ?thesis
      using None route assms(2) held
      by (cases body)
        (auto simp: nf route_def or_return_eq_Inr get_fid_Inr rebinds_def plain_request_def newfid_of_def
          intro!: confined_rlopen confined_rlcreate intro: handles_intros table)
  qed
next
  case (Some x)
  then show ?thesis
    using route assms(2) held
    by (cases body)
      (auto simp: route_def or_return_eq_Inr get_fid_Inr get_newfid_def plain_request_def
        newfid_of_def unsupported_def split: option.splits
        intro!: confined_rattach confined_rwalk intro: handles_intros table)
qed

section \<open>One client\<close>

text \<open>
  A client that sent plain names only: its table, the fids its tasks have still to insert and
  its running methods.
\<close>

definition pc_inside :: "path \<Rightarrow> nat \<Rightarrow> nat set \<Rightarrow> 'w unpfs_state \<Rightarrow> (nat, 'w unpfs_state) pc \<Rightarrow> bool" where
  "pc_inside root limit K s pc \<longleftrightarrow>
     (case pc of
        Running nf fut \<Rightarrow> \<exists>H \<subseteq> K. calm limit H H fut \<and> confined root limit H nf fut s
      | Handled _ nf \<Rightarrow> bound_inside root nf s
      | Removed _ nf \<Rightarrow> bound_inside root nf s
      | _ \<Rightarrow> True)"

lemma pc_inside_simps [simp]:
  "pc_inside root limit K s (Running nf fut) = (\<exists>H \<subseteq> K. calm limit H H fut \<and> confined root limit H nf fut s)"
  "pc_inside root limit K s (Handled r nf) = bound_inside root nf s"
  "pc_inside root limit K s (Removed r nf) = bound_inside root nf s"
  "pc_inside root limit K s Spawned" "pc_inside root limit K s (Responding r)" "pc_inside root limit K s Finished"
  by (simp_all add: pc_inside_def)

definition table_inside :: "path \<Rightarrow> nat fid_table \<Rightarrow> 'w unpfs_state \<Rightarrow> bool" where
  "table_inside root fids s \<longleftrightarrow> (\<forall>x f. fids x = Some f \<longrightarrow> inside root (fid_aux f) s)"

definition conn_inside :: "path \<Rightarrow> nat \<Rightarrow> nat set \<Rightarrow> (nat, 'w unpfs_state) conn \<Rightarrow> bool" where
  "conn_inside root limit K c \<longleftrightarrow>
     table_inside root (srv_fids (conn_server c)) (srv_fs (conn_server c)) \<and>
     (\<forall>t \<in> set (conn_tasks c). pc_inside root limit K (srv_fs (conn_server c)) (snd t))"

text \<open>Steps that keep the paths of \<open>K\<close> inside.\<close>

lemma keeps_inside_subset:
  assumes "keeps_inside root limit K s s'" and "H \<subseteq> K" and "held limit K s'"
  shows "keeps_inside root limit H s s'"
  using assms by (auto simp: keeps_inside_def held_def)

lemma pc_inside_mono:
  assumes "pc_inside root limit K s pc" and "pc_within limit K pc"
    and "keeps_inside root limit K s s'" and "held limit K s'" and "K \<subseteq> K'"
  shows "pc_inside root limit K' s' pc"
proof (cases pc)
  case (Running nf fut)
  with assms(1) obtain H where H: "H \<subseteq> K" "calm limit H H fut" "confined root limit H nf fut s" by auto
  have "confined root limit H nf fut s'"
    using H(3) keeps_inside_subset [OF assms(3) H(1) assms(4)] keeps_inside_trans by (rule ensures_stable)
  with H assms(5) Running show ?thesis by auto
qed (use assms in \<open>auto simp: bound_inside_def keeps_inside_def pc_within_def\<close>)

lemma table_inside_mono:
  "table_inside root fids s \<Longrightarrow> table_within K fids \<Longrightarrow> keeps_inside root limit K s s' \<Longrightarrow> table_inside root fids s'"
  by (auto simp: table_inside_def table_within_def keeps_inside_def)

lemma rebinds_handles: "rebinds fids newfid body \<subseteq> handles fids newfid"
  by (auto simp: rebinds_def split: fcall.splits intro: handles_intros)

lemma make_newfid_keeps_inside:
  assumes "make_newfid (unpfs S U) body s = (nf, s1)" and "held limit K s"
  shows "held limit (K \<union> made_between s s1) s1" and "keeps_inside root limit K s s1"
    and "\<And>f. nf = Some f \<Longrightarrow> fid_aux f \<in> made_between s s1" and "newfid_of body = None \<Longrightarrow> nf = None"
proof -
  have "held limit K s1 \<and> held limit (K \<union> made_between s s1) s1 \<and> (\<forall>a \<in> K. inside root a s1 = inside root a s)"
    using assms
    by (auto simp: make_newfid_def unpfs_default_def made_between_def held_def shallow_def made_def new_cell_def
        inside_def nth_append split: option.splits)
  then show "held limit (K \<union> made_between s s1) s1" and "keeps_inside root limit K s s1"
    by (simp_all add: keeps_inside_def)
  show "\<And>f. nf = Some f \<Longrightarrow> fid_aux f \<in> made_between s s1" and "newfid_of body = None \<Longrightarrow> nf = None"
    using assms(1) by (auto simp: make_newfid_def unpfs_default_def made_between_def split: option.splits)
qed

lemma advance_inside:
  assumes "advance E out msg pc sv k = (pc', sv', k')" and "env_fs E = unpfs S U"
    and "plain_request (msg_body msg)"
    and "table_within K (srv_fids sv)" and "pc_within (max_depth U) K pc" and "held (max_depth U) K (srv_fs sv)"
    and "table_inside (realroot U) (srv_fids sv) (srv_fs sv)"
    and "pc_inside (realroot U) (max_depth U) K (srv_fs sv) pc"
  shows "held (max_depth U) (K \<union> made_between (srv_fs sv) (srv_fs sv')) (srv_fs sv')" (is "?held")
    and "keeps_inside (realroot U) (max_depth U) K (srv_fs sv) (srv_fs sv')" (is "?keeps")
    and "pc_inside (realroot U) (max_depth U) (K \<union> made_between (srv_fs sv) (srv_fs sv')) (srv_fs sv') pc'" (is "?pc")
proof -
  have "?held \<and> ?keeps \<and> ?pc"
  proof (cases pc rule: pc_cases)
    case Spawned
    obtain nf s1 where mk: "make_newfid (unpfs S U) (msg_body msg) (srv_fs sv) = (nf, s1)" by fastforce
    note new = make_newfid_keeps_inside [OF mk assms(6)]
    show ?thesis
    proof (cases "route (unpfs S U) (srv_fids sv) nf (msg_body msg)")
      case (Inl e)
      with Spawned assms(1,2) mk new(1,2) show ?thesis by (auto simp: advance_def)
    next
      case (Inr fut)
      let ?H = "handles (srv_fids sv) nf" and ?K = "K \<union> made_between (srv_fs sv) s1"
      have H: "?H \<subseteq> ?K"
        using assms(4) new(3) by (auto simp: handles_def table_within_def ran_def)
      then have "held (max_depth U) ?H s1" using new(1) by (auto simp: held_def)
      moreover have "table_inside (realroot U) (srv_fids sv) s1"
        using assms(7,4) new(2) by (rule table_inside_mono)
      ultimately have "confined (realroot U) (max_depth U) ?H nf fut s1"
        using new(4) by (intro unpfs_confined [OF Inr assms(3)]) (auto simp: table_inside_def)
      moreover have "calm (max_depth U) ?H ?H fut"
        using unpfs_calm [OF Inr] order_refl rebinds_handles by (rule calm_mono)
      ultimately have "pc_inside (realroot U) (max_depth U) ?K s1 (Running nf fut)" using H by auto
      moreover have "pc' = Running nf fut" "srv_fs sv' = s1"
        using Spawned Inr assms(1,2) mk by (auto simp: advance_def)
      ultimately show ?thesis using new(1,2) by simp
    qed
  next
    case (Await nf w h upd nxt)
    let ?s = "srv_fs sv"
    obtain H where H: "H \<subseteq> K" "calm (max_depth U) H H (Await w h upd nxt)"
      "confined (realroot U) (max_depth U) H nf (Await w h upd nxt) ?s"
      using assms(8) by (auto simp: Await)
    have "held (max_depth U) H ?s" using assms(6) H(1) by (auto simp: held_def)
    then have calm: "touching H ?s (upd ?s)" "calm (max_depth U) H H (nxt ?s)"
      using H(2) by simp_all
    have "held (max_depth U) K (upd ?s)" using assms(5,6) by (simp add: Await pc_within_def)
    moreover have "keeps_inside (realroot U) (max_depth U) H ?s (upd ?s)"
      "confined (realroot U) (max_depth U) H nf (nxt ?s) (upd ?s)"
      using ensures_now(2) [OF keeps_inside_refl H(3)] by simp_all
    moreover have "inside (realroot U) a (upd ?s) = inside (realroot U) a ?s" if "a \<notin> H" for a
      using calm(1) that by (simp add: touching_def inside_def)
    ultimately have "keeps_inside (realroot U) (max_depth U) K ?s (upd ?s)"
      "pc_inside (realroot U) (max_depth U) K (upd ?s) (Running nf (nxt ?s))"
      using H(1) calm(2) by (auto simp: keeps_inside_def)
    moreover have "made_between ?s (upd ?s) = {}" using calm(1) by (simp add: made_between_def touching_def)
    ultimately show ?thesis
      using Await assms(1) \<open>held (max_depth U) K (upd ?s)\<close> by (auto simp del: pc_inside_simps)
  next
    case (Success nf r)
    then obtain H where H: "confined (realroot U) (max_depth U) H nf (Ready (Inr r)) (srv_fs sv)"
      using assms(8) by auto
    from ensures_now(1) [OF keeps_inside_refl H] Success assms(1,6) show ?thesis
      by (auto simp: made_between_def keeps_inside_def)
  qed (use assms(1,6,8) in
      \<open>auto simp: advance_def made_between_def keeps_inside_def split: sum.splits prod.splits if_splits\<close>)
  then show ?held ?keeps ?pc by blast+
qed

lemma advance_table_inside:
  assumes "advance E out msg pc sv k = (pc', sv', k')"
    and "table_inside root (srv_fids sv) (srv_fs sv)" and "table_within K (srv_fids sv)"
    and "keeps_inside root limit K (srv_fs sv) (srv_fs sv')" and "pc_inside root limit K (srv_fs sv) pc"
  shows "table_inside root (srv_fids sv') (srv_fs sv')"
proof -
  have old: "table_inside root (srv_fids sv) (srv_fs sv')"
    using assms(2-4) by (rule table_inside_mono)
  show ?thesis
  proof (cases pc rule: pc_cases)
    case (Removed r nf)
    with assms(1,5) old show ?thesis
      by (auto simp: table_inside_def insert_newfid_apply bound_inside_def split: option.splits if_splits)
  qed (use assms(1) old in
      \<open>auto simp: advance_def table_inside_def drop_clunked_apply split: sum.splits prod.splits if_splits\<close>)
qed

lemma conn_step_inside:
  assumes "conn_step E lossy c c'" and "env_fs E = unpfs S U"
    and "conn_within (max_depth U) K c" and "held (max_depth U) K (srv_fs (conn_server c))"
    and "conn_inside (realroot U) (max_depth U) K c"
    and "list_all (\<lambda>m. plain_request (msg_body m)) (requests c')"
  shows "conn_inside (realroot U) (max_depth U)
    (K \<union> made_between (srv_fs (conn_server c)) (srv_fs (conn_server c'))) c'"
  using assms(1)
proof (cases rule: conn_task_stepE)
  case recv
  then show ?thesis
    using assms(5)
    by (cases rule: receive_cases) (auto simp: conn_inside_def made_between_def)
next
  case (task i msg pc pc' sv' k' out)
  let ?s = "srv_fs (conn_server c)" and ?s' = "srv_fs (conn_server c')"
  let ?K = "K \<union> made_between ?s ?s'"
  have t: "(msg, pc) \<in> set (conn_tasks c)" using task(1,2) by (metis nth_mem)
  have "msg \<in> set (requests c')"
    using task(1,2,7) by (auto simp: requests_def map_update set_update_memI)
  then have plain: "plain_request (msg_body msg)" using assms(6) by (simp add: list_all_iff)
  have now: "table_within K (srv_fids (conn_server c))" "pc_within (max_depth U) K pc"
    "table_inside (realroot U) (srv_fids (conn_server c)) ?s"
    "pc_inside (realroot U) (max_depth U) K ?s pc"
    using assms(3,5) t by (auto simp: conn_within_def conn_inside_def)
  note move = advance_inside [OF task(6) assms(2) plain now(1,2) assms(4) now(3,4)]
  have s': "srv_fs sv' = ?s'" "srv_fids sv' = srv_fids (conn_server c')" using task(7) by simp_all
  have held: "held (max_depth U) K ?s'" using move(1) by (simp add: held_def s')
  have old: "pc_inside (realroot U) (max_depth U) ?K ?s' (snd t)" if "t \<in> set (conn_tasks c)" for t
    using that assms(3,5)
    by (intro pc_inside_mono [OF _ _ move(2) [unfolded s'] held Un_upper1])
      (simp_all add: conn_within_def conn_inside_def)
  have new: "pc_inside (realroot U) (max_depth U) ?K ?s' pc'" using move(3) by (simp only: s')
  have "pc_inside (realroot U) (max_depth U) ?K ?s' (snd t)" if "t \<in> set (conn_tasks c')" for t
  proof -
    have "t = (msg, pc') \<or> t \<in> set (conn_tasks c)"
      using that task(7) by (intro in_list_update [of t _ i]) simp
    then show ?thesis
    proof
      assume "t = (msg, pc')"
      with new show ?thesis by simp
    qed (rule old)
  qed
  moreover have "table_inside (realroot U) (srv_fids (conn_server c')) ?s'"
    using advance_table_inside [OF task(6) now(3,1) move(2) now(4)] by (simp only: s')
  ultimately show ?thesis by (simp only: conn_inside_def) blast
qed

text \<open>Steps of others leave a client where it is.\<close>

lemma conn_inside_with_fs:
  assumes "conn_inside root limit K c" and "conn_within limit K c"
    and "held limit K s" and "\<And>a. a \<in> K \<Longrightarrow> up_cells s ! a = up_cells (srv_fs (conn_server c)) ! a"
  shows "conn_inside root limit K (with_fs s c)"
proof -
  have keeps: "keeps_inside root limit K (srv_fs (conn_server c)) s"
    using assms(3,4) by (simp add: keeps_inside_def inside_def)
  with assms(1,2) have "pc_inside root limit K s (snd t)" if "t \<in> set (conn_tasks c)" for t
    using that by (intro pc_inside_mono [OF _ _ keeps assms(3) order_refl]) (auto simp: conn_within_def conn_inside_def)
  moreover have "table_inside root (srv_fids (conn_server c)) s"
    using assms(1,2) keeps by (auto simp: conn_inside_def conn_within_def intro: table_inside_mono)
  ultimately show ?thesis by (simp add: conn_inside_def)
qed

section \<open>One client among all others\<close>

definition plain_client :: "(nat, 'w unpfs_state) conn \<Rightarrow> bool" where
  "plain_client c \<longleftrightarrow> list_all (\<lambda>m. plain_request (msg_body m)) (requests c)"

lemma plain_client_step:
  assumes "conn_step E lossy c c'" and "plain_client c'"
  shows "plain_client c"
  using assms(1)
proof (cases rule: conn_task_stepE)
  case recv
  then show ?thesis
    using assms(2) by (cases rule: receive_cases) (auto simp: plain_client_def requests_def)
next
  case (task i msg pc pc' sv' k' out)
  then have "requests c' = requests c" by (simp add: requests_def)
  with assms(2) show ?thesis by (simp add: plain_client_def)
qed

lemma plain_client_with_fs [simp]: "plain_client (with_fs s c) = plain_client c"
  by (simp add: plain_client_def)

definition client_inside :: "Unpfs \<Rightarrow> (nat \<Rightarrow> nat set) \<Rightarrow> nat \<Rightarrow> (nat, 'w unpfs_state) system \<Rightarrow> bool" where
  "client_inside U K i S \<longleftrightarrow>
     (i < length (sy_conns S) \<longrightarrow> plain_client (sys_conn S i) \<longrightarrow>
        conn_inside (realroot U) (max_depth U) (K i) (sys_conn S i))"

lemma client_inside_others:
  assumes "client_inside U K i S" and "apart (max_depth U) K S" and "apart (max_depth U) K' S'"
    and "i < length (sy_conns S)" and "i < length (sy_conns S')" and "K' i = K i"
    and "sys_conn S' i = with_fs (sy_fs S') (sys_conn S i)"
    and "\<And>a. a \<in> K i \<Longrightarrow> up_cells (sy_fs S') ! a = up_cells (sy_fs S) ! a"
  shows "client_inside U K' i S'"
proof -
  have "conn_within (max_depth U) (K i) (sys_conn S i)"
    using assms(2,4) by (simp add: apart_def sys_conn_def)
  moreover have "held (max_depth U) (K i) (sy_fs S')"
    using apart_held [OF assms(3,5)] assms(6) by simp
  ultimately show ?thesis
    using assms(1,4,6-8) conn_inside_with_fs [of "realroot U" "max_depth U" "K i" "sys_conn S i" "sy_fs S'"]
    by (simp add: client_inside_def)
qed

lemma run_client_inside:
  assumes "(sys_step E P lossy others)\<^sup>*\<^sup>* (sys_start accepts s) S" and "env_fs E = unpfs H U"
    and "\<And>s s'. others s s' \<Longrightarrow> up_cells s' = up_cells s" and "up_cells s = []"
  shows "\<exists>K. apart (max_depth U) K S \<and> client_inside U K i S"
  using assms(1)
proof (induction rule: rtranclp_induct)
  case base
  show ?case using assms(4) by (simp add: apart_def shallow_def client_inside_def)
next
  case (step S S')
  then obtain K where K: "apart (max_depth U) K S" and inside: "client_inside U K i S" by blast
  have "(sys_step E P lossy others)\<^sup>*\<^sup>* (sys_start accepts s) S'" using step(1,2) by simp
  from run_served_good [OF this assms(2-4)] have shallow: "shallow (max_depth U) (sy_fs S')"
    by (simp add: served.sys_good_def)
  from step(2) show ?case
  proof (cases rule: sys_stepE)
    case listen
    let ?K = "K(length (sy_conns S) := {})"
    have apart: "apart (max_depth U) ?K S'" by (rule apart_accept [OF K listen])
    from listen have "client_inside U ?K i S'"
    proof (cases rule: acceptE)
      case (stream st rest)
      show ?thesis
      proof (cases "i < length (sy_conns S)")
        case True
        with inside stream show ?thesis by (simp add: client_inside_def sys_conn_def nth_append)
      next
        case False
        with stream show ?thesis
          by (auto simp: client_inside_def sys_conn_def nth_append less_Suc_eq conn_inside_def table_inside_def
              conn_over_def conn_start_def)
      qed
    next
      case (failed e rest)
      with inside show ?thesis by (auto simp: client_inside_def sys_conn_def)
    qed
    with apart show ?thesis by blast
  next
    case (serve j c)
    let ?K = "K(j := K j \<union> made_between (sy_fs S) (srv_fs (conn_server c)))"
    have apart: "apart (max_depth U) ?K S'"
      using apart_serve [OF serve(3) assms(2) K serve(2)] shallow serve(1) by simp
    have within: "conn_within (max_depth U) (K j) (sys_conn S j)" "held (max_depth U) (K j) (sy_fs S)"
      using K serve(2) apart_held [OF K serve(2)] by (simp_all add: apart_def sys_conn_def)
    have "client_inside U ?K i S'"
    proof (cases "i = j")
      case True
      show ?thesis
        unfolding client_inside_def
      proof (intro impI)
        assume "plain_client (sys_conn S' i)"
        then have plain: "plain_client c" using True serve(1,2) by (simp add: sys_conn_put)
        then have "plain_client (sys_conn S j)" by (rule plain_client_step [OF serve(3)])
        then have "conn_inside (realroot U) (max_depth U) (K j) (sys_conn S j)"
          using inside True serve(2) by (simp add: client_inside_def)
        with conn_step_inside [OF serve(3) assms(2) within(1) _ this] within(2) plain
        show "conn_inside (realroot U) (max_depth U) (?K i) (sys_conn S' i)"
          using True serve(1,2) by (simp add: sys_conn_put plain_client_def)
      qed
    next
      case False
      show ?thesis
      proof (cases "i < length (sy_conns S)")
        case True
        have "keeps_outside (K j) (sy_fs S) (srv_fs (conn_server c))"
          using conn_step_within [OF serve(3) assms(2) within(1)] within(2) by simp
        moreover have "K i \<inter> K j = {}" "\<And>a. a \<in> K i \<Longrightarrow> a < length (up_cells (sy_fs S))"
          using K True serve(2) False by (auto simp: apart_def made_def)
        ultimately have "up_cells (srv_fs (conn_server c)) ! a = up_cells (sy_fs S) ! a" if "a \<in> K i" for a
          using that unfolding keeps_outside_def by blast
        then show ?thesis
          using client_inside_others [OF inside K apart True] True False serve(1,2)
          by (simp add: sys_conn_put)
      qed (use serve(1) in \<open>simp add: client_inside_def\<close>)
    qed
    with apart show ?thesis by blast
  next
    case (outside s')
    have apart: "apart (max_depth U) K S'" using apart_fs [OF K] assms(3) outside by simp
    have "client_inside U K i S'"
    proof (cases "i < length (sy_conns S)")
      case True
      then show ?thesis
        using client_inside_others [OF inside K apart True] outside assms(3) by (simp add: sys_conn_outside)
    qed (use outside in \<open>simp add: client_inside_def\<close>)
    with apart show ?thesis by blast
  qed
qed

text \<open>
  C8. A client that sends only plain names stays in the export, unlike one that sends others
  (see \<open>absolute_name_leaves_the_export\<close>): as long as no name it walked to or created is
  empty, has a separator in it or is \<^verbatim>\<open>.\<close> or \<^verbatim>\<open>..\<close>, the path of each of its fids, the one the
  server hands to the host, is the root of the export or plain names behind it, whatever the
  root is, whatever the other clients send and however all requests interleave. Where the
  host follows a symbolic link on that path is up to the host.
\<close>

theorem plain_client_stays_in_the_export:
  assumes "(sys_step E P lossy others)\<^sup>*\<^sup>* (sys_start accepts s) S" and "env_fs E = unpfs H U"
    and "\<And>s s'. others s s' \<Longrightarrow> up_cells s' = up_cells s" and "up_cells s = []"
    and "i < length (sy_conns S)" and "plain_client (sy_conns S ! i)"
    and "srv_fids (conn_server (sy_conns S ! i)) x = Some f"
  shows "below (realroot U) (ufid_realpath (cell f (sy_fs S)))"
proof -
  obtain K where "client_inside U K i S" using run_client_inside [OF assms(1-4)] by blast
  then have "conn_inside (realroot U) (max_depth U) (K i) (sys_conn S i)"
    using assms(5,6) by (simp add: client_inside_def sys_conn_def)
  with assms(7) show ?thesis
    by (auto simp: conn_inside_def table_inside_def inside_def cell_def sys_conn_def)
qed

theorem plain_client_stays_in_the_export_witness:
  "\<exists>S f. sample_run (sys_start two_streams no_cells) S \<and>
     srv_fids (conn_server (sy_conns S ! 1)) 5 = Some f \<and>
     below (ascii ''/srv'') (ufid_realpath (cell f (sy_fs S)))"
proof -
  obtain S f where S: "sample_run (sys_start two_streams no_cells) S" "length (sy_conns S) = 2"
    "srv_fids (conn_server (sy_conns S ! 1)) 5 = Some f" "requests (sy_conns S ! 1) = [sample_attach]"
    using two_clients by blast
  have "plain_client (sy_conns S ! 1)"
    using S(4) by (simp add: plain_client_def plain_request_def sample_attach_def)
  then have "below (ascii ''/srv'') (ufid_realpath (cell f (sy_fs S)))"
    using plain_client_stays_in_the_export [OF S(1) unpfs_env_fs _ _ _ _ S(3)] S(2)
    by (simp add: no_cells_def sample_unpfs_def)
  with S show ?thesis by blast
qed

end
