(* ===== verification/Files.thy ===== *)
theory Files
  imports Export
begin

text \<open>
  What a client finds in a file. The host's files are a parameter: the locale \<open>host_files\<close>
  states what \<^verbatim>\<open>seek\<close>, \<^verbatim>\<open>read\<close> and \<^verbatim>\<open>write\<close> document about the content of an open file and
  its position, and over it reading and writing through \<^verbatim>\<open>unpfs\<close> are shown to reach the
  bytes a request asks for.
\<close>

section \<open>Content of a file\<close>

text \<open>The content \<open>c\<close> with \<open>d\<close> written at \<open>p\<close>; a gap behind the old end is filled with zeros.\<close>

definition overwrite :: "bytes \<Rightarrow> nat \<Rightarrow> bytes \<Rightarrow> bytes" where
  "overwrite c p d =
     (if d = [] then c else take p c @ replicate (p - length c) 0 @ d @ drop (p + length d) c)"

lemma length_overwrite: "length (overwrite c p d) = (if d = [] then length c else max (length c) (p + length d))"
  by (simp add: overwrite_def max_def min_def)

lemma overwrite_nth:
  assumes "j < length (overwrite c p d)"
  shows "overwrite c p d ! j =
    (if p \<le> j \<and> j < p + length d then d ! (j - p) else if j < length c then c ! j else 0)"
proof (cases "d = []")
  case True
  with assms show ?thesis by (auto simp: overwrite_def)
next
  case False
  let ?pad = "take p c @ replicate (p - length c) 0"
  have pad: "length ?pad = p" by (simp add: min_def)
  have parts: "overwrite c p d = ?pad @ d @ drop (p + length d) c"
    using False by (simp add: overwrite_def)
  consider "j < p" | "p \<le> j" "j < p + length d" | "p + length d \<le> j" by linarith
  then show ?thesis
  proof cases
    case 1
    then have "overwrite c p d ! j = ?pad ! j"
      unfolding parts by (subst nth_append) (simp only: pad if_True)
    with 1 show ?thesis by (auto simp: nth_append)
  next
    case 2
    then have "overwrite c p d ! j = (d @ drop (p + length d) c) ! (j - p)"
      unfolding parts by (subst nth_append) (simp only: pad not_less [THEN iffD2] if_False)
    moreover have "j - p < length d" using 2 by linarith
    ultimately show ?thesis using 2 by (simp add: nth_append)
  next
    case 3
    then have "\<not> j < p" by simp
    then have "overwrite c p d ! j = (d @ drop (p + length d) c) ! (j - p)"
      unfolding parts by (subst nth_append) (simp only: pad if_False)
    moreover have "\<not> j - p < length d" "p + length d + (j - p - length d) = j" using 3 by linarith+
    ultimately have "overwrite c p d ! j = c ! j"
      using 3 assms False by (simp add: nth_append length_overwrite max_def split: if_splits)
    then show ?thesis
      using 3 assms False by (simp add: length_overwrite max_def split: if_splits)
  qed
qed

section \<open>What the host documents\<close>

text \<open>
  For an open file \<open>h\<close>: the bytes reads through it come from and its position. A read gives
  bytes from the position on, at most as many as asked for and at least one before the end of
  the file; a write puts a prefix of the data at the position. (\<^verbatim>\<open>O_APPEND\<close>, which would put
  it elsewhere, is not among \<^verbatim>\<open>UNIX_FLAGS\<close>.)
\<close>

locale host_files =
  fixes H :: "'w os"
    and content :: "fd \<Rightarrow> 'w \<Rightarrow> bytes"
    and position :: "fd \<Rightarrow> 'w \<Rightarrow> nat"
  assumes seeks: "os_seek H h off w = (Inr (), w') \<Longrightarrow> content h w' = content h w \<and> position h w' = unat off"
    and reads: "os_read H h n w = (Inr buf, w') \<Longrightarrow>
      content h w' = content h w \<and> length buf \<le> n \<and>
      buf = take (length buf) (drop (position h w) (content h w)) \<and>
      (0 < n \<longrightarrow> position h w < length (content h w) \<longrightarrow> buf \<noteq> [])"
    and writes: "os_write H h d w = (Inr n, w') \<Longrightarrow>
      n \<le> length d \<and> content h w' = overwrite (content h w) (position h w) (take n d)"
begin

text \<open>A request that reads or writes, run without interruption.\<close>

lemma rread_content:
  assumes "ufid_file (cell f s) = Some h" and "run (unpfs_rread H f off cnt) s = (Inr (RRead (Data buf)), s')"
  shows "ufid_file (cell f s') = Some h \<and> content h (up_os s') = content h (up_os s) \<and> length buf \<le> unat cnt \<and>
    buf = take (length buf) (drop (unat off) (content h (up_os s))) \<and>
    (0 < unat cnt \<longrightarrow> unat off < length (content h (up_os s)) \<longrightarrow> buf \<noteq> [])"
proof -
  obtain w1 w2 where w: "os_seek H h off (up_os s) = (Inr (), w1)" "os_read H h (unat cnt) w1 = (Inr buf, w2)"
    "s' = s\<lparr>up_os := w2\<rparr>"
    using assms
    by (auto simp: unpfs_rread_def file_of_def and_then_assoc and_then_def ok_def fail_def peek_def sys_def
        converting_def split: prod.splits sum.splits)
  with seeks [OF w(1)] reads [OF w(2)] assms(1) show ?thesis by (simp add: cell_def)
qed

lemma rwrite_content:
  assumes "ufid_file (cell f s) = Some h" and "run (unpfs_rwrite H f off (Data d)) s = (Inr (RWrite n), s')"
    and "length d < 2 ^ 32"
  shows "ufid_file (cell f s') = Some h \<and> unat n \<le> length d \<and>
    content h (up_os s') = overwrite (content h (up_os s)) (unat off) (take (unat n) d)"
proof -
  obtain w1 w2 m where w: "os_seek H h off (up_os s) = (Inr (), w1)" "os_write H h d w1 = (Inr m, w2)"
    "n = of_nat m" "s' = s\<lparr>up_os := w2\<rparr>"
    using assms(1,2)
    by (auto simp: unpfs_rwrite_def data_bytes_def file_of_def and_then_assoc and_then_def ok_def fail_def peek_def
        sys_def converting_def split: prod.splits sum.splits)
  have "unat n = m"
    using writes [OF w(2)] assms(3) by (simp add: w(3) unat_of_nat)
  with seeks [OF w(1)] writes [OF w(2)] w assms(1) show ?thesis by (simp add: cell_def)
qed

lemma read_after_write:
  assumes "ufid_file (cell f s) = Some h" and "length d < 2 ^ 32"
    and "run (unpfs_rwrite H f off (Data d)) s = (Inr (RWrite n), s1)"
    and "run (unpfs_rread H f off' cnt) s1 = (Inr (RRead (Data buf)), s2)"
  defines "old \<equiv> content h (up_os s)"
  shows "unat n \<le> length d \<and> length buf \<le> unat cnt \<and>
    (\<forall>i < length buf. buf ! i =
      (let j = unat off' + i in
       if unat off \<le> j \<and> j < unat off + unat n then d ! (j - unat off)
       else if j < length old then old ! j else 0)) \<and>
    (buf = [] \<longrightarrow> cnt = 0 \<or> length old \<le> unat off' \<and> (n = 0 \<or> unat off + unat n \<le> unat off'))"
proof -
  note w = rwrite_content [OF assms(1,3,2)]
  then have "ufid_file (cell f s1) = Some h" by simp
  note r = rread_content [OF this assms(4)]
  let ?new = "content h (up_os s1)"
  have new: "?new = overwrite old (unat off) (take (unat n) d)" and n: "unat n \<le> length d"
    using w by (simp_all add: old_def)
  have nth: "buf ! i = (let j = unat off' + i in
       if unat off \<le> j \<and> j < unat off + unat n then d ! (j - unat off)
       else if j < length old then old ! j else 0)" if "i < length buf" for i
  proof -
    let ?j = "unat off' + i"
    have buf: "buf = take (length buf) (drop (unat off') ?new)" using r by simp
    then have "length buf \<le> length ?new - unat off'" by (metis length_drop length_take min.cobounded2 nat_le_linear take_all)
    with that have j: "?j < length ?new" by simp
    have "buf ! i = ?new ! ?j"
      using that j by (subst buf) simp
    also have "\<dots> = (if unat off \<le> ?j \<and> ?j < unat off + unat n then take (unat n) d ! (?j - unat off)
        else if ?j < length old then old ! ?j else 0)"
      using overwrite_nth [of ?j old "unat off" "take (unat n) d"] j n by (simp add: new)
    finally show ?thesis by (auto simp: Let_def)
  qed
  moreover have "cnt = 0 \<or> length old \<le> unat off' \<and> (n = 0 \<or> unat off + unat n \<le> unat off')" if "buf = []"
  proof -
    have "length ?new = (if n = 0 \<or> d = [] then length old else max (length old) (unat off + unat n))"
      using n by (auto simp: new length_overwrite unat_eq_0 min_def)
    moreover have "cnt = 0 \<or> length ?new \<le> unat off'" using r that by (auto simp: unat_gt_0)
    moreover have "d = [] \<Longrightarrow> n = 0" using n by (simp add: unat_eq_0)
    ultimately show ?thesis by (auto split: if_splits)
  qed
  ultimately show ?thesis using n r by blast
qed

end

section \<open>A host with files\<close>

text \<open>The calls on open files as they are documented, over a content and a position for each.\<close>

definition file_os :: "(fd \<Rightarrow> bytes \<times> nat) os" where
  "file_os =
     \<lparr>O_WRONLY = 1, O_RDONLY = 0, O_RDWR = 2, O_CREAT = 64, O_TRUNC = 512,
      oflag_truncate = id, mode_truncate = id,
      last_access_time = (\<lambda>_. \<lparr>ft_seconds = 0, ft_nanos = 0\<rparr>),
      last_modification_time = (\<lambda>_. \<lparr>ft_seconds = 0, ft_nanos = 0\<rparr>),
      os_symlink_metadata = (\<lambda>_. fail (Simple Unsupported)), os_metadata = (\<lambda>_. fail (Simple Unsupported)),
      os_entry_metadata = (\<lambda>_. fail (Simple Unsupported)),
      os_set_permissions = (\<lambda>_ _. fail (Simple Unsupported)), os_chown = (\<lambda>_ _ _. fail EOPNOTSUPP),
      os_open_write = (\<lambda>_. fail (Simple Unsupported)), os_set_len = (\<lambda>_ _. fail (Simple Unsupported)),
      os_set_file_times = (\<lambda>_ _ _. fail (Simple Unsupported)),
      os_read_link = (\<lambda>_. fail (Simple Unsupported)), os_read_dir = (\<lambda>_. fail (Simple Unsupported)),
      os_open = (\<lambda>_ _ _. fail EOPNOTSUPP),
      os_seek = (\<lambda>h off w. (Inr (), w(h := (fst (w h), unat off)))),
      os_read = (\<lambda>h n w. case w h of (c, p) \<Rightarrow>
        let buf = take n (drop p c) in (Inr buf, w(h := (c, p + length buf)))),
      os_write = (\<lambda>h d w. case w h of (c, p) \<Rightarrow> (Inr (length d), w(h := (overwrite c p d, p + length d)))),
      os_sync_all = (\<lambda>_. ok ()), os_create_dir = (\<lambda>_. fail (Simple Unsupported)),
      os_rename = (\<lambda>_ _. fail (Simple Unsupported)), os_remove_dir = (\<lambda>_. fail (Simple Unsupported)),
      os_remove_file = (\<lambda>_. fail (Simple Unsupported)), os_statvfs = (\<lambda>_. fail EOPNOTSUPP),
      os_try_exists = (\<lambda>_. fail (Simple Unsupported)), os_create_dir_all = (\<lambda>_. fail (Simple Unsupported))\<rparr>"

lemma file_os_simps:
  "os_seek file_os h off w = (Inr (), w(h := (fst (w h), unat off)))"
  "os_read file_os h n w =
     (Inr (take n (drop (snd (w h)) (fst (w h)))),
      w(h := (fst (w h), snd (w h) + length (take n (drop (snd (w h)) (fst (w h)))))))"
  "os_write file_os h d w = (Inr (length d), w(h := (overwrite (fst (w h)) (snd (w h)) d, snd (w h) + length d)))"
  by (simp_all add: file_os_def Let_def split_beta)

interpretation files: host_files file_os "\<lambda>h w. fst (w h)" "\<lambda>h w. snd (w h)"
  by unfold_locales (auto simp: file_os_simps min_def)

section \<open>Reading and writing\<close>

text \<open>
  C36. What a client writes is what it reads. After a write of \<open>d\<close> at \<open>off\<close> of which \<open>n\<close> bytes
  were taken, a read at \<open>off'\<close> through the same fid gives at each position the byte that was
  written there, and everywhere else the byte the file had before, or zero in a gap the write
  left behind the old end. It gives no more than the client asked for, and nothing at all only
  at or behind the end of the file. This is on a host that keeps what it documents, with
  nothing between the two requests.
\<close>

theorem written_data_is_read_back:
  assumes "host_files H content position"
    and "ufid_file (cell f s) = Some h" and "length d < 2 ^ 32"
    and "run (unpfs_rwrite H f off (Data d)) s = (Inr (RWrite n), s1)"
    and "run (unpfs_rread H f off' cnt) s1 = (Inr (RRead (Data buf)), s2)"
  shows "unat n \<le> length d \<and> length buf \<le> unat cnt \<and>
    (\<forall>i < length buf. buf ! i =
      (let j = unat off' + i in
       if unat off \<le> j \<and> j < unat off + unat n then d ! (j - unat off)
       else if j < length (content h (up_os s)) then content h (up_os s) ! j else 0)) \<and>
    (buf = [] \<longrightarrow> cnt = 0 \<or>
       length (content h (up_os s)) \<le> unat off' \<and> (n = 0 \<or> unat off + unat n \<le> unat off'))"
  by (rule host_files.read_after_write [OF assms])

text \<open>A file of three bytes, written at 5 and read from 2.\<close>

definition open_state :: "(fd \<Rightarrow> bytes \<times> nat) unpfs_state" where
  "open_state =
     \<lparr>up_cells = [\<lparr>ufid_realpath = ascii ''/f'', ufid_file = Some 3, ufid_depth = 0\<rparr>],
      up_os = (\<lambda>_. ([1, 2, 3], 0))\<rparr>"

theorem written_data_is_read_back_witness:
  "\<exists>s1 s2 buf. run (unpfs_rwrite file_os sample_root 5 (Data [8, 9])) open_state = (Inr (RWrite 2), s1) \<and>
     run (unpfs_rread file_os sample_root 2 4) s1 = (Inr (RRead (Data buf)), s2) \<and> length buf = 4 \<and>
     buf ! 0 = 3 \<and> buf ! 1 = 0 \<and> buf ! 2 = 0 \<and> buf ! 3 = 8"
proof -
  note defs = unpfs_rwrite_def unpfs_rread_def data_bytes_def file_of_def and_then_assoc and_then_def ok_def peek_def
    sys_def converting_def file_os_simps cell_def sample_root_def
  have two: "replicate 2 (0 :: u8) = [0, 0]" by (simp add: numeral_2_eq_2)
  obtain s1 where s1: "run (unpfs_rwrite file_os sample_root 5 (Data [8, 9])) open_state = (Inr (RWrite 2), s1)"
    "up_cells s1 = up_cells open_state" "fst (up_os s1 3) = [1, 2, 3, 0, 0, 8, 9]"
    by (simp add: defs open_state_def overwrite_def two)
  then obtain s2 buf where s2: "run (unpfs_rread file_os sample_root 2 4) s1 = (Inr (RRead (Data buf)), s2)"
    "length buf = 4"
    by (simp add: defs open_state_def)
  have "ufid_file (cell sample_root open_state) = Some 3"
    by (simp add: cell_def sample_root_def open_state_def)
  from written_data_is_read_back [OF files.host_files_axioms this _ s1(1) s2(1)] s2(2)
  have all: "i < 4 \<Longrightarrow> buf ! i = (let j = 2 + i in if 5 \<le> j \<and> j < 5 + 2 then [8, 9] ! (j - 5)
      else if j < 3 then [1, 2, 3] ! j else 0)" for i
    by (simp add: open_state_def)
  have "buf ! 0 = 3 \<and> buf ! 1 = 0 \<and> buf ! 2 = 0 \<and> buf ! 3 = 8"
    using all [of 0] all [of 1] all [of 2] all [of 3] by simp
  with s1(1) s2 show ?thesis by blast
qed

end
