(* ===== verification/Locks.thy ===== *)
theory Locks
  imports Clients
begin

text \<open>
  What the locks of \<^verbatim>\<open>unpfs\<close> are for. A field of a fid does not change while its lock is held,
  and a request that reads or writes has the open file of its fid to itself from the seek to
  the end.
\<close>

section \<open>Fields change under their locks\<close>

definition field_kept :: "string \<Rightarrow> UnpfsFId \<Rightarrow> UnpfsFId \<Rightarrow> bool" where
  "field_kept fld c c' \<longleftrightarrow>
     (fld = ''realpath'' \<longrightarrow> ufid_realpath c' = ufid_realpath c) \<and>
     (fld = ''depth'' \<longrightarrow> ufid_depth c' = ufid_depth c) \<and>
     (fld = ''file'' \<longrightarrow> ufid_file c' = ufid_file c)"

lemma field_kept_refl [simp]: "field_kept fld c c"
  by (simp add: field_kept_def)

text \<open>A piece writes a field only if it takes its lock exclusively.\<close>

definition writes_locked :: "access option \<Rightarrow> 'w unpfs_state \<Rightarrow> 'w unpfs_state \<Rightarrow> bool" where
  "writes_locked want s s' \<longleftrightarrow>
     length (up_cells s') = length (up_cells s) \<and>
     (\<forall>a fld. want \<noteq> Some (Exclusive (a, fld)) \<longrightarrow> field_kept fld (up_cells s ! a) (up_cells s' ! a))"

lemma looks_writes [guarded_intros]: "looks c \<Longrightarrow> writes_locked w s (snd (c s))"
  by (simp add: looks_def writes_locked_def)

lemma poke_writes:
  assumes "\<And>c fld'. fld' \<noteq> fld \<Longrightarrow> field_kept fld' c (upd c)"
  shows "writes_locked (Some (Exclusive (fid_aux f, fld))) s (snd (poke f upd s))"
  unfolding writes_locked_def
proof (intro conjI allI impI)
  fix a fld'
  assume other: "Some (Exclusive (fid_aux f, fld)) \<noteq> Some (Exclusive (a, fld'))"
  show "field_kept fld' (up_cells s ! a) (up_cells (snd (poke f upd s)) ! a)"
  proof (cases "a = fid_aux f \<and> a < length (up_cells s)")
    case True
    with other assms show ?thesis by (simp add: poke_def cell_def)
  next
    case False
    then have "up_cells (snd (poke f upd s)) ! a = up_cells s ! a"
      by (cases "a = fid_aux f") (simp_all add: poke_def list_update_beyond)
    then show ?thesis by simp
  qed
qed (simp add: poke_def)

lemma put_writes [guarded_intros]:
  "writes_locked (Some (Exclusive (fid_aux f, ''realpath''))) s (snd (poke f (ufid_realpath_update g) s))"
  "writes_locked (Some (Exclusive (fid_aux f, ''depth''))) s (snd (poke f (ufid_depth_update g') s))"
  "writes_locked (Some (Exclusive (fid_aux f, ''file''))) s (snd (poke f (ufid_file_update g'') s))"
  by (rule poke_writes; simp add: field_kept_def)+

lemma guarded_when_set [guarded_intros]: "guarded R op \<Longrightarrow> guarded R (when_set b op)"
  by (simp add: when_set_def)

lemma guarded_ignoring_errors [guarded_intros]: "guarded R op \<Longrightarrow> guarded R (ignoring_errors op)"
  unfolding ignoring_errors_def by (intro guarded_intros)

lemma guarded_walk_loop [guarded_intros]:
  "guarded writes_locked (walk_loop S limit first names p d qs)"
proof (induction names arbitrary: first p d qs)
  case (Cons name names)
  then show ?case
    by (auto simp: walk_loop.simps intro!: guarded_intros looks_intros split: option.splits sum.splits)
qed (simp add: walk_loop.simps)

lemma guarded_readdir_loop [guarded_intros]: "guarded writes_locked (readdir_loop S cnt es i d)"
proof (induction S cnt es i d rule: readdir_loop.induct)
  case (3 S cnt en es i d)
  then show ?case by (simp add: readdir_loop.simps del: if_split) (intro guarded_intros looks_intros; simp)
qed (simp_all add: readdir_loop.simps)

lemma unpfs_guarded:
  assumes "route (unpfs S U) fids newfid body = Inr fut"
  shows "guarded writes_locked fut"
  using assms
  by (cases body)
    (auto simp: route_def or_return_eq_Inr get_newfid_def method_defs split: option.splits simp del: if_split
      intro!: guarded_intros looks_intros)

interpretation protected: method_law "unpfs S U" "guarded writes_locked" for S :: "'w os" and U
  by unfold_locales (auto dest: unpfs_guarded)

lemma advance_fields:
  assumes "advance E out msg pc sv k = (pc', sv', k')" and "env_fs E = unpfs H U"
    and "pc_method (guarded writes_locked) pc" and "a < length (up_cells (srv_fs sv))"
    and "pc_wants pc \<noteq> Some (Exclusive (a, fld))"
  shows "field_kept fld (up_cells (srv_fs sv) ! a) (up_cells (srv_fs sv') ! a)"
proof (cases pc rule: pc_cases)
  case Spawned
  obtain nf s1 where mk: "make_newfid (unpfs H U) (msg_body msg) (srv_fs sv) = (nf, s1)" by fastforce
  then have "up_cells s1 ! a = up_cells (srv_fs sv) ! a"
    using assms(4) by (auto simp: make_newfid_def unpfs_default_def nth_append split: option.splits)
  moreover have "srv_fs sv' = s1"
    using assms(1,2) mk by (auto simp: Spawned advance_def split: sum.splits)
  ultimately show ?thesis by simp
next
  case (Await nf w h upd nxt)
  then have "writes_locked w (srv_fs sv) (upd (srv_fs sv))" "sv' = sv\<lparr>srv_fs := upd (srv_fs sv)\<rparr>"
    using assms(1,3) by auto
  with assms(5) Await show ?thesis by (simp add: writes_locked_def)
qed (use assms(1) in \<open>auto simp: advance_def split: prod.splits sum.splits if_splits\<close>)

primrec lock_of :: "access \<Rightarrow> lock" where
  "lock_of (Shared l) = l"
| "lock_of (Exclusive l) = l"

lemma exclusive_conflicts: "conflicts (Exclusive l) x \<longleftrightarrow> lock_of x = l"
  by (cases x) auto

lemma sys_step_fields:
  assumes "sys_step E P lossy others S S'" and "env_fs E = unpfs H U"
    and "sys_methods (guarded writes_locked) S" and "\<And>s s'. others s s' \<Longrightarrow> up_cells s' = up_cells s"
    and "a < length (up_cells (sy_fs S))" and "x \<in> set (sys_held S)" and "lock_of x = (a, fld)"
  shows "field_kept fld (up_cells (sy_fs S) ! a) (up_cells (sy_fs S') ! a)"
  using assms(1)
proof (cases rule: sys_step_cases)
  case listen
  then show ?thesis by (cases rule: acceptE) simp_all
next
  case (receive i c)
  from receive(3) show ?thesis
    by (cases rule: receive_cases) (simp_all add: receive(1) sys_conn_def)
next
  case (task i j out)
  let ?c = "sys_conn S i"
  obtain msg pc where t: "conn_tasks ?c ! j = (msg, pc)" by fastforce
  obtain pc' sv' k' where adv: "advance E out msg pc (conn_server ?c) (conn_sink ?c) = (pc', sv', k')"
    by (metis prod_cases3)
  have "pc_method (guarded writes_locked) pc"
    by (rule conn_methods_task [OF sys_methods_conn [OF assms(3) task(2)] task(3) t])
  moreover have "pc_wants pc \<noteq> Some (Exclusive (a, fld))"
    using task(5) t assms(6,7) by (auto simp: lock_free_def list_all_iff exclusive_conflicts)
  ultimately have "field_kept fld (up_cells (sy_fs S) ! a) (up_cells (srv_fs sv') ! a)"
    using advance_fields [OF adv assms(2)] assms(5) by simp
  with task(1) t adv show ?thesis by (simp add: run_task_def)
next
  case (outside s)
  with assms(4) show ?thesis by simp
qed

lemma run_protected:
  assumes "(sys_step E P lossy others)\<^sup>*\<^sup>* (sys_start accepts s) S" and "env_fs E = unpfs H U"
  shows "sys_methods (guarded writes_locked) S"
  by (rule protected.run_methods [OF assms])

text \<open>
  C10. While any task of the server holds the lock of a field of a fid, for reading or for
  writing, no step of any client, the listener or another process changes that field: the
  path a call of the host works on and the open file a request uses stay what they were
  when the lock was taken.
\<close>

theorem locked_fields_do_not_change:
  assumes "(sys_step E P lossy others)\<^sup>*\<^sup>* (sys_start accepts s) S" and "env_fs E = unpfs H U"
    and "\<And>s s'. others s s' \<Longrightarrow> up_cells s' = up_cells s" and "sys_step E P lossy others S S'"
    and "a < length (up_cells (sy_fs S))" and "x \<in> set (sys_held S)" and "lock_of x = (a, fld)"
  shows "field_kept fld (up_cells (sy_fs S) ! a) (up_cells (sy_fs S') ! a)"
  by (rule sys_step_fields [OF assms(4,2) run_protected [OF assms(1,2)] assms(3,5-7)])

section \<open>An open file is used by one request at a time\<close>

text \<open>
  The futures of a request that works on the open file of \<open>f\<close> at an offset: before it has
  the lock, then about to seek and about to go on, with the handle it found.
\<close>

definition io_start ::
  "ufid \<Rightarrow> (fd \<Rightarrow> ('w, unit) unpfs_call) \<Rightarrow> (fd \<Rightarrow> ('w, 'b) unpfs_call) \<Rightarrow> ('b \<Rightarrow> fcall) \<Rightarrow>
    ('w, fcall) unpfs_call" where
  "io_start f seek op fin =
     await_ok (with_file f (\<lambda>h. await_ok (seek h) (\<lambda>_. op h))) (\<lambda>x. done_with (fin x))"

definition io_seek ::
  "ufid \<Rightarrow> (fd \<Rightarrow> ('w, unit) unpfs_call) \<Rightarrow> (fd \<Rightarrow> ('w, 'b) unpfs_call) \<Rightarrow> ('b \<Rightarrow> fcall) \<Rightarrow>
    fd \<Rightarrow> ('w, fcall) unpfs_call" where
  "io_seek f seek op fin h =
     await_ok (holding (Exclusive (fid_aux f, ''file'')) (await_ok (seek h) (\<lambda>_. op h))) (\<lambda>x. done_with (fin x))"

definition io_op ::
  "ufid \<Rightarrow> (fd \<Rightarrow> ('w, 'b) unpfs_call) \<Rightarrow> ('b \<Rightarrow> fcall) \<Rightarrow> fd \<Rightarrow> ('w, fcall) unpfs_call" where
  "io_op f op fin h =
     await_ok (holding (Exclusive (fid_aux f, ''file'')) (op h)) (\<lambda>x. done_with (fin x))"

definition io_stage ::
  "ufid \<Rightarrow> (fd \<Rightarrow> ('w, unit) unpfs_call) \<Rightarrow> (fd \<Rightarrow> ('w, 'b) unpfs_call) \<Rightarrow> ('b \<Rightarrow> fcall) \<Rightarrow>
    'w unpfs_state \<Rightarrow> ('w, fcall) unpfs_call \<Rightarrow> bool" where
  "io_stage f seek op fin s fut \<longleftrightarrow>
     fut = io_start f seek op fin \<or>
     (\<exists>h. ufid_file (cell f s) = Some h \<and> holds fut = [Exclusive (fid_aux f, ''file'')] \<and>
        (fut = io_seek f seek op fin h \<or> fut = io_op f op fin h)) \<or>
     (\<exists>r. fut = Ready r)"

lemma up_cells_sys [simp]: "up_cells (snd (sys op s)) = up_cells s"
  by (simp add: sys_def split: prod.splits)

lemma io_stage_next:
  fixes sk :: "fd \<Rightarrow> ('w, error, unit) comp" and op :: "fd \<Rightarrow> ('w, error, 'b) comp"
  assumes "io_stage f (\<lambda>h. host (sk h)) (\<lambda>h. host (op h)) fin s (Await w h upd nxt)"
  shows "io_stage f (\<lambda>h. host (sk h)) (\<lambda>h. host (op h)) fin (upd s) (nxt s)"
proof -
  note defs = io_start_def io_seek_def io_op_def under_def one_piece_def await_ok_def
  consider
      (start) "Await w h upd nxt = io_start f (\<lambda>h. host (sk h)) (\<lambda>h. host (op h)) fin"
    | (seek) k where "ufid_file (cell f s) = Some k"
        "Await w h upd nxt = io_seek f (\<lambda>h. host (sk h)) (\<lambda>h. host (op h)) fin k"
    | (op) k where "Await w h upd nxt = io_op f (\<lambda>h. host (op h)) fin k"
    using assms by (auto simp: io_stage_def)
  then show ?thesis
  proof cases
    case start
    show ?thesis
    proof (cases "ufid_file (cell f s)")
      case None
      then have "nxt s = Ready (Inl invalid_fid)"
        using start by (simp add: defs file_of_def peek_def fail_def)
      then show ?thesis by (simp add: io_stage_def)
    next
      case (Some k)
      then have "upd s = s" "nxt s = io_seek f (\<lambda>h. host (sk h)) (\<lambda>h. host (op h)) fin k"
        using start by (simp_all add: defs file_of_def peek_def ok_def)
      with Some show ?thesis by (simp add: io_stage_def defs)
    qed
  next
    case (seek k)
    then have "up_cells (upd s) = up_cells s" by (simp add: defs)
    moreover have "nxt s = io_op f (\<lambda>h. host (op h)) fin k \<or> (\<exists>r. nxt s = Ready r)"
      using seek(2) by (auto simp: defs split: sum.splits)
    ultimately show ?thesis using seek(1) by (auto simp: io_stage_def cell_def) (auto simp: defs)
  next
    case (op k)
    then have "\<exists>r. nxt s = Ready r" by (auto simp: defs split: sum.splits)
    then show ?thesis by (auto simp: io_stage_def)
  qed
qed

text \<open>The stage of a task, by its request.\<close>

definition io_pc ::
  "'w os \<Rightarrow> 'w unpfs_state \<Rightarrow> nat fid_table \<Rightarrow> fcall \<Rightarrow> (nat, 'w unpfs_state) pc \<Rightarrow> bool" where
  "io_pc H s fids body pc \<longleftrightarrow>
     (case pc of
        Running nf fut \<Rightarrow>
          (case body of
             TRead fid off cnt \<Rightarrow>
               (\<exists>f. fids fid = Some f \<and>
                  io_stage f (\<lambda>h. host (io_call (os_seek H h off)))
                    (\<lambda>h. host (io_call (os_read H h (unat cnt)))) (\<lambda>buf. RRead (Data buf)) s fut)
           | TWrite fid off data \<Rightarrow>
               (\<exists>f. fids fid = Some f \<and>
                  io_stage f (\<lambda>h. host (io_call (os_seek H h off)))
                    (\<lambda>h. host (io_call (os_write H h (data_bytes data)))) (\<lambda>n. RWrite (of_nat n)) s fut)
           | _ \<Rightarrow> True)
      | _ \<Rightarrow> True)"

lemma io_pc_idle: "\<not> reads_table pc \<Longrightarrow> io_pc H s fids body pc"
  by (cases pc) (simp_all add: io_pc_def)

lemma io_starts:
  "unpfs_rread H f off cnt = io_start f (\<lambda>h. host (io_call (os_seek H h off)))
     (\<lambda>h. host (io_call (os_read H h (unat cnt)))) (\<lambda>buf. RRead (Data buf))"
  "unpfs_rwrite H f off data = io_start f (\<lambda>h. host (io_call (os_seek H h off)))
     (\<lambda>h. host (io_call (os_write H h (data_bytes data)))) (\<lambda>n. RWrite (of_nat n))"
  by (simp_all add: io_start_def unpfs_rread_def unpfs_rwrite_def)

lemma io_pc_routed:
  "route (unpfs H U) fids nf body = Inr fut \<Longrightarrow> io_pc H s fids body (Running nf' fut)"
  by (cases body) (auto simp: route_def or_return_eq_Inr get_fid_Inr io_pc_def io_stage_def io_starts)

lemma advance_io:
  assumes "advance E out msg pc sv k = (pc', sv', k')" and "env_fs E = unpfs H U"
    and "io_pc H (srv_fs sv) (srv_fids sv) (msg_body msg) pc"
  shows "io_pc H (srv_fs sv') (srv_fids sv') (msg_body msg) pc'"
proof (cases pc rule: pc_cases)
  case Spawned
  with assms(1,2) show ?thesis
    by (auto simp: advance_def io_pc_idle intro: io_pc_routed split: prod.splits sum.splits)
next
  case (Await nf w h upd nxt)
  with assms(1,3) show ?thesis
    by (auto simp: io_pc_def intro: io_stage_next split: fcall.splits)
qed (use assms(1) in \<open>auto simp: advance_def io_pc_idle split: prod.splits sum.splits if_splits\<close>)

lemma io_pc_keep:
  assumes "io_pc H s fids body pc"
    and "\<And>a. Exclusive (a, ''file'') \<in> set (pc_holds pc) \<Longrightarrow> (\<exists>x f. fids x = Some f \<and> fid_aux f = a) \<Longrightarrow>
      ufid_file (up_cells s' ! a) = ufid_file (up_cells s ! a)"
  shows "io_pc H s' fids body pc"
proof -
  have stage: "io_stage f seek op fin s' fut"
    if "io_stage f seek op fin s fut" "pc = Running nf fut" "fids x = Some f" for f seek op fin fut nf x
  proof -
    have "ufid_file (cell f s') = ufid_file (cell f s)" if "holds fut = [Exclusive (fid_aux f, ''file'')]"
      using assms(2) [of "fid_aux f"] \<open>pc = _\<close> \<open>fids x = _\<close> that by (auto simp: cell_def)
    with that(1) show ?thesis unfolding io_stage_def by metis
  qed
  show ?thesis
    using assms(1) by (auto simp: io_pc_def intro: stage split: pc.splits fcall.splits)
qed

definition sys_io :: "'w os \<Rightarrow> (nat, 'w unpfs_state) system \<Rightarrow> bool" where
  "sys_io H S \<longleftrightarrow>
     (\<forall>i < length (sy_conns S). \<forall>t \<in> set (conn_tasks (sy_conns S ! i)).
        io_pc H (sy_fs S) (srv_fids (conn_server (sy_conns S ! i))) (msg_body (fst t)) (snd t))"

lemma sys_ioD:
  "sys_io H S \<Longrightarrow> i < length (sy_conns S) \<Longrightarrow> (msg, pc) \<in> set (conn_tasks (sy_conns S ! i)) \<Longrightarrow>
     io_pc H (sy_fs S) (srv_fids (conn_server (sy_conns S ! i))) (msg_body msg) pc"
  by (fastforce simp: sys_io_def)

lemma held_in_system:
  "i < length (sy_conns S) \<Longrightarrow> (msg, pc) \<in> set (conn_tasks (sy_conns S ! i)) \<Longrightarrow> x \<in> set (pc_holds pc) \<Longrightarrow>
     x \<in> set (sys_held S)"
  by (force simp: sys_held_def conn_held_def)

lemma fid_made:
  assumes "served.sys_good U S" and "i < length (sy_conns S)"
    and "srv_fids (conn_server (sy_conns S ! i)) x = Some f"
  shows "fid_aux f < length (up_cells (sy_fs S))"
proof -
  have "served.conn_good U (sys_conn S i)" using assms(1,2) by (simp add: served.sys_good_def)
  with assms(3) show ?thesis
    by (fastforce simp: served.conn_good_def served.table_valid_def ran_def made_def sys_conn_def)
qed

text \<open>A task that does not move keeps its stage.\<close>

lemma sys_step_io_other:
  assumes "sys_step E P lossy others S S'" and "env_fs E = unpfs H U"
    and "sys_methods (guarded writes_locked) S" and "\<And>s s'. others s s' \<Longrightarrow> up_cells s' = up_cells s"
    and "served.sys_good U S" and "sys_io H S"
    and "l < length (sy_conns S)" and "(msg, pc) \<in> set (conn_tasks (sy_conns S ! l))"
  shows "io_pc H (sy_fs S') (srv_fids (conn_server (sy_conns S ! l))) (msg_body msg) pc"
proof (rule io_pc_keep [OF sys_ioD [OF assms(6-8)]])
  fix a
  assume held: "Exclusive (a, ''file'') \<in> set (pc_holds pc)"
    and "\<exists>x f. srv_fids (conn_server (sy_conns S ! l)) x = Some f \<and> fid_aux f = a"
  then have "a < length (up_cells (sy_fs S))" using fid_made [OF assms(5,7)] by blast
  from sys_step_fields [OF assms(1-4) this held_in_system [OF assms(7,8) held], of "''file''"]
  show "ufid_file (up_cells (sy_fs S') ! a) = ufid_file (up_cells (sy_fs S) ! a)"
    by (simp add: field_kept_def)
qed

lemma sys_step_io:
  assumes "sys_step E P lossy others S S'" and "env_fs E = unpfs H U"
    and "sys_methods (guarded writes_locked) S" and "\<And>s s'. others s s' \<Longrightarrow> up_cells s' = up_cells s"
    and "served.sys_good U S" and "sys_io H S"
  shows "sys_io H S'"
proof -
  have other: "io_pc H (sy_fs S') (srv_fids (conn_server (sy_conns S ! l))) (msg_body msg) pc"
    if "l < length (sy_conns S)" "(msg, pc) \<in> set (conn_tasks (sy_conns S ! l))" for l msg pc
    by (rule sys_step_io_other [OF assms(1-3) _ assms(5,6) that]) (rule assms(4))
  from assms(1) show ?thesis
  proof (cases rule: sys_step_cases)
    case listen
    then show ?thesis
      using other by (cases rule: acceptE)
        (auto simp: sys_io_def nth_append less_Suc_eq conn_over_def conn_start_def)
  next
    case (receive i c)
    have "set (conn_tasks c) \<subseteq> set (conn_tasks (sy_conns S ! i)) \<union> {(msg, pc). \<not> reads_table pc}"
      and "srv_fids (conn_server c) = srv_fids (conn_server (sy_conns S ! i))"
      using receive(3) by (cases rule: receive_cases; auto simp: sys_conn_def)+
    with other receive(1,2) show ?thesis
      by (fastforce simp: sys_io_def put_conn_def nth_list_update io_pc_idle)
  next
    case (task i j out)
    let ?c = "sys_conn S i"
    obtain msg pc where t: "conn_tasks ?c ! j = (msg, pc)" by fastforce
    obtain pc' sv' k' where adv: "advance E out msg pc (conn_server ?c) (conn_sink ?c) = (pc', sv', k')"
      by (metis prod_cases3)
    have S': "sy_fs S' = srv_fs sv'"
      "sy_conns S' = (sy_conns S)[i := ?c\<lparr>conn_tasks := (conn_tasks ?c)[j := (msg, pc')], conn_server := sv',
         conn_sink := k'\<rparr>]"
      using task(1) t adv by (simp_all add: run_task_def put_conn_def)
    have "(msg, pc) \<in> set (conn_tasks (sy_conns S ! i))" using task(3) t by (metis nth_mem sys_conn_simps(1))
    from sys_ioD [OF assms(6) task(2) this]
    have mover: "io_pc H (srv_fs sv') (srv_fids sv') (msg_body msg) pc'"
      by (intro advance_io [OF adv assms(2)]) (simp add: sys_conn_def)
    have rest: "io_pc H (srv_fs sv') (srv_fids sv') (msg_body m) q"
      if q: "(m, q) \<in> set (conn_tasks (sy_conns S ! i))" for m q
    proof (cases "reads_table q")
      case True
      then have "table_read ?c" using q by (force simp: table_read_def list_ex_iff)
      then have "srv_fids sv' = srv_fids (conn_server (sy_conns S ! i))"
        using task(4) t advance_writes [OF adv] by (auto simp: can_move_def sys_conn_def)
      with other [OF task(2) q] S'(1) show ?thesis by simp
    qed (rule io_pc_idle)
    have "io_pc H (srv_fs sv') (srv_fids sv') (msg_body (fst u)) (snd u)"
      if "u \<in> set ((conn_tasks ?c)[j := (msg, pc')])" for u
      using in_list_update [OF that] mover rest [of "fst u" "snd u"] by auto
    then show ?thesis
      unfolding sys_io_def S' using other S'(1) task(2) by (auto simp: nth_list_update)
  next
    case (outside s)
    with other show ?thesis by (force simp: sys_io_def)
  qed
qed

lemma run_io:
  assumes "(sys_step E P lossy others)\<^sup>*\<^sup>* (sys_start accepts s) S" and "env_fs E = unpfs H U"
    and "\<And>s s'. others s s' \<Longrightarrow> up_cells s' = up_cells s" and "up_cells s = []"
  shows "sys_io H S"
  using assms(1)
proof (induction rule: rtranclp_induct)
  case base
  show ?case by (simp add: sys_io_def)
next
  case (step S S')
  show ?case
    by (rule sys_step_io [OF step(2) assms(2) run_protected [OF step(1) assms(2)] assms(3)
          run_served_good [OF step(1) assms(2-4)] step(3)])
qed

text \<open>
  C9. A request that reads or writes has the open file to itself. Whatever the other tasks
  and clients do, its fid stays bound, and from before the seek until after the read or the
  write it holds the lock of the open file and works on the handle that is the open file of
  the fid at that very moment.
\<close>

theorem open_file_is_not_shared:
  assumes "(sys_step E P lossy others)\<^sup>*\<^sup>* (sys_start accepts s) S" and "env_fs E = unpfs H U"
    and "\<And>s s'. others s s' \<Longrightarrow> up_cells s' = up_cells s" and "up_cells s = []"
    and "i < length (sy_conns S)" and "(msg, Running nf fut) \<in> set (conn_tasks (sy_conns S ! i))"
  shows "io_pc H (sy_fs S) (srv_fids (conn_server (sy_conns S ! i))) (msg_body msg) (Running nf fut)"
  by (rule sys_ioD [OF run_io [OF assms(1-4)] assms(5,6)])

section \<open>Witnesses\<close>

text \<open>A client attaches its fid 5 and sends one more request, whose method is then called.\<close>

lemma method_called:
  fixes s :: "unit unpfs_state" and m :: Msg
  assumes "carried m" and "newfid_of (msg_body m) = None"
    and "\<And>fids f. fids 5 = Some f \<Longrightarrow> route (unpfs sample_os sample_unpfs) fids None (msg_body m) = Inr (call f)"
    and "\<And>f. holds (call f) = []"
  shows "\<exists>c f. (conn_step unpfs_env False)\<^sup>*\<^sup>* (conn_start [Inr (wire_Msg sample_attach), Inr (wire_Msg m)] s) c \<and>
    srv_fids (conn_server c) 5 = Some f \<and> fid_aux f = length (up_cells s) \<and> length (conn_tasks c) = 2 \<and>
    conn_tasks c ! 1 = (m, Running None (call f)) \<and> conn_held c = []"
proof -
  let ?f = "\<lparr>fid_num = 5, fid_aux = length (up_cells s)\<rparr>"
  obtain c r where c: "(conn_step unpfs_env False)\<^sup>*\<^sup>* (conn_start [Inr (wire_Msg sample_attach), Inr (wire_Msg m)] s) c"
    "srv_fids (conn_server c) 5 = Some ?f" "conn_tasks c = [(sample_attach, Responding r)]"
    "conn_input c = [Inr (wire_Msg m)]" "conn_result c = None"
    using unpfs_attached_first [of "[Inr (wire_Msg m)]" s] by blast
  have "read_msg documented_crates (wire_Msg m) = (Inr m, [])"
    using documented.decode_Msg_wire [OF assms(1), of "[]"] by (simp add: read_msg_def)
  then have r1: "conn_step unpfs_env False c
      (c\<lparr>conn_input := [], conn_tasks := [(sample_attach, Responding r), (m, Spawned)]\<rparr>)" (is "conn_step _ _ _ ?c1")
    using c(3-5) by (intro conn_step.receive) (simp add: receive_def unpfs_env_def)
  let ?c2 = "?c1\<lparr>conn_tasks := (conn_tasks ?c1)[1 := (m, Running None (call ?f))],
     conn_server := conn_server c, conn_sink := conn_sink c\<rparr>"
  have "advance unpfs_env Accepted m Spawned (conn_server ?c1) (conn_sink ?c1) =
      (Running None (call ?f), conn_server c, conn_sink c)"
    using assms(2) assms(3) [of "srv_fids (conn_server c)" ?f] c(2)
    by (simp add: advance_def make_newfid_def unpfs_env_fs)
  then have "conn_step unpfs_env False ?c1 ?c2"
    by (intro run_task_advance [where pc = Spawned]) simp_all
  with c(1) r1 have "(conn_step unpfs_env False)\<^sup>*\<^sup>* (conn_start [Inr (wire_Msg sample_attach), Inr (wire_Msg m)] s) ?c2"
    by (meson rtranclp.rtrancl_into_rtrancl)
  moreover have "conn_held ?c2 = []" using assms(4) by (simp add: conn_held_def)
  ultimately show ?thesis using c(2) by (intro exI [of _ ?c2] exI [of _ ?f]) simp
qed

text \<open>The server with this client alone.\<close>

definition one_stream :: "Msg \<Rightarrow> (io_error + bytes) list" where
  "one_stream m = [Inr (request_bytes [sample_attach, m])]"

lemma serves_one:
  assumes "length (wire_Msg m) + 4 \<le> max_frame_length"
    and "(conn_step unpfs_env False)\<^sup>*\<^sup>* (conn_start [Inr (wire_Msg sample_attach), Inr (wire_Msg m)] no_cells) c"
  shows "\<exists>S. sample_run (sys_start (one_stream m) no_cells) S \<and> sy_conns S = [c] \<and> sys_conn S 0 = c"
proof -
  let ?frames = "[Inr (wire_Msg sample_attach), Inr (wire_Msg m)]"
  let ?S = "(sys_start (one_stream m) no_cells)\<lparr>sy_accepts := [],
     sy_conns := [conn_over unpfs_env (request_bytes [sample_attach, m]) no_cells]\<rparr>"
  have over: "conn_over unpfs_env (request_bytes [sample_attach, m]) no_cells = conn_start ?frames no_cells"
    using request_items [OF documented_codec_laws, of "[sample_attach, m]"] assms(1)
    by (simp add: conn_over_def unpfs_env_def length_sample_attach max_frame_length_def)
  have start: "sys_conn ?S 0 = conn_start ?frames no_cells"
    by (simp add: sys_conn_def over conn_start_def with_fs_def)
  have accepted: "sample_run (sys_start (one_stream m) no_cells) ?S"
    using accepts_stream [of "sys_start (one_stream m) no_cells"] by (simp add: one_stream_def)
  from assms(2) start have "(conn_step unpfs_env False)\<^sup>*\<^sup>* (sys_conn ?S 0) c" by simp
  from run_conn [where lossy = "\<lambda>_. False" and P = Tcp and others = "\<lambda>_ _. False", OF this] show ?thesis
  proof
    assume "sample_run ?S (put_conn ?S 0 c)"
    with accepted have "sample_run (sys_start (one_stream m) no_cells) (put_conn ?S 0 c)" by simp
    then show ?thesis
      by (intro exI [of _ "put_conn ?S 0 c"]) (simp add: put_conn_def sys_conn_def)
  next
    assume "c = sys_conn ?S 0"
    with accepted start over show ?thesis by (intro exI [of _ ?S]) simp
  qed simp_all
qed

definition sample_read :: Msg where
  "sample_read = \<lparr>msg_tag = 2, msg_body = TRead 5 0 10\<rparr>"

definition sample_getattr :: Msg where
  "sample_getattr = \<lparr>msg_tag = 2, msg_body = TGetAttr 5 0\<rparr>"

lemma sample_messages:
  "carried sample_read" "carried sample_getattr"
  "length (wire_Msg sample_read) + 4 \<le> max_frame_length" "length (wire_Msg sample_getattr) + 4 \<le> max_frame_length"
  by (simp_all add: sample_read_def sample_getattr_def carried_def empty_dir_def wire_Msg_def max_frame_length_def bits_ok_def)

theorem open_file_is_not_shared_witness:
  "\<exists>S fut. sample_run (sys_start (one_stream sample_read) no_cells) S \<and>
     (sample_read, Running None fut) \<in> set (conn_tasks (sy_conns S ! 0)) \<and>
     io_pc sample_os (sy_fs S) (srv_fids (conn_server (sy_conns S ! 0))) (TRead 5 0 10) (Running None fut)"
proof -
  obtain c f where c: "(conn_step unpfs_env False)\<^sup>*\<^sup>*
      (conn_start [Inr (wire_Msg sample_attach), Inr (wire_Msg sample_read)] no_cells) c"
    "length (conn_tasks c) = 2" "conn_tasks c ! 1 = (sample_read, Running None (unpfs_rread sample_os f 0 10))"
    using method_called [OF sample_messages(1), where call = "\<lambda>f. unpfs_rread sample_os f 0 10" and s = no_cells]
    by (auto simp: sample_read_def newfid_of_def route_def get_fid_def unpfs_rread_def under_def one_piece_def)
  obtain S where S: "sample_run (sys_start (one_stream sample_read) no_cells) S" "sy_conns S = [c]"
    using serves_one [OF sample_messages(3) c(1)] by blast
  have "(sample_read, Running None (unpfs_rread sample_os f 0 10)) \<in> set (conn_tasks (sy_conns S ! 0))"
    using c(2,3) S(2) by (simp, metis less_numeral_extra(1) nth_mem one_less_numeral_iff semiring_norm(76))
  moreover have "io_pc sample_os (sy_fs S) (srv_fids (conn_server (sy_conns S ! 0))) (msg_body sample_read)
      (Running None (unpfs_rread sample_os f 0 10))"
    by (rule open_file_is_not_shared [OF S(1) unpfs_env_fs _ _ _ calculation]) (simp_all add: no_cells_def S(2))
  ultimately show ?thesis using S(1) by (auto simp: sample_read_def)
qed

text \<open>A task that holds the lock of the path of its fid while the host looks the path up.\<close>

lemma lock_held:
  "\<exists>S f. sample_run (sys_start (one_stream sample_getattr) no_cells) S \<and> length (sy_conns S) = 1 \<and>
     srv_fids (conn_server (sy_conns S ! 0)) 5 = Some f \<and>
     Shared (fid_aux f, ''realpath'') \<in> set (sys_held S) \<and>
     (\<exists>S'. sys_step unpfs_env Tcp (\<lambda>_. False) (\<lambda>_ _. False) S S')"
proof -
  obtain c f where c: "(conn_step unpfs_env False)\<^sup>*\<^sup>*
      (conn_start [Inr (wire_Msg sample_attach), Inr (wire_Msg sample_getattr)] no_cells) c"
    "srv_fids (conn_server c) 5 = Some f" "length (conn_tasks c) = 2"
    "conn_tasks c ! 1 = (sample_getattr, Running None (unpfs_rgetattr sample_os f 0))" "conn_held c = []"
    using method_called [OF sample_messages(2), where call = "\<lambda>f. unpfs_rgetattr sample_os f 0" and s = no_cells]
    by (auto simp: sample_getattr_def newfid_of_def route_def get_fid_def unpfs_rgetattr_def under_def one_piece_def)
  obtain w h upd nxt where fut: "unpfs_rgetattr sample_os f 0 = Await w h upd nxt"
    "\<And>s. holds (nxt s) = [Shared (fid_aux f, ''realpath'')]"
    by (auto simp: unpfs_rgetattr_def under_def one_piece_def peek_def)
  let ?c' = "c\<lparr>conn_tasks := (conn_tasks c)[1 := (sample_getattr, Running None (nxt (srv_fs (conn_server c))))],
     conn_server := (conn_server c)\<lparr>srv_fs := upd (srv_fs (conn_server c))\<rparr>, conn_sink := conn_sink c\<rparr>"
  have "conn_step unpfs_env False c ?c'"
    using c(3-5) fut(1) by (intro run_task_advance [where pc = "Running None (Await w h upd nxt)"]) simp_all
  with c(1) have run: "(conn_step unpfs_env False)\<^sup>*\<^sup>*
      (conn_start [Inr (wire_Msg sample_attach), Inr (wire_Msg sample_getattr)] no_cells) ?c'" by simp
  obtain S where S: "sample_run (sys_start (one_stream sample_getattr) no_cells) S" "sy_conns S = [?c']"
    using serves_one [OF sample_messages(4) run] by blast
  have t: "(sample_getattr, Running None (nxt (srv_fs (conn_server c)))) \<in> set (conn_tasks (sy_conns S ! 0))"
    using S(2) c(3) by (simp add: set_update_memI)
  have "Shared (fid_aux f, ''realpath'') \<in> set (sys_held S)"
    by (rule held_in_system [OF _ t]) (simp_all add: S(2) fut(2))
  moreover have "\<exists>S'. sys_step unpfs_env Tcp (\<lambda>_. False) (\<lambda>_ _. False) S S'"
  proof (rule sys_task_moves [of S 0])
    show "sys_orderly S" by (rule lock_discipline.run_orderly [OF unpfs_env_disciplined S(1) refl])
    show "\<not> list_all (\<lambda>t. snd t = Finished) (conn_tasks (sy_conns S ! 0))"
      using t by (force simp: list_all_iff)
  qed (simp add: S(2))
  ultimately show ?thesis using S c(2) by (intro exI [of _ S] exI [of _ f]) simp
qed

theorem locked_fields_do_not_change_witness:
  "\<exists>S S' f. sample_run (sys_start (one_stream sample_getattr) no_cells) S \<and>
     Shared (fid_aux f, ''realpath'') \<in> set (sys_held S) \<and>
     sys_step unpfs_env Tcp (\<lambda>_. False) (\<lambda>_ _. False) S S' \<and>
     field_kept ''realpath'' (cell f (sy_fs S)) (cell f (sy_fs S'))"
proof -
  obtain S S' f where S: "sample_run (sys_start (one_stream sample_getattr) no_cells) S" "length (sy_conns S) = 1"
    "srv_fids (conn_server (sy_conns S ! 0)) 5 = Some f" "Shared (fid_aux f, ''realpath'') \<in> set (sys_held S)"
    "sys_step unpfs_env Tcp (\<lambda>_. False) (\<lambda>_ _. False) S S'"
    using lock_held by blast
  have "served.sys_good sample_unpfs S"
    by (rule run_served_good [OF S(1) unpfs_env_fs]) (simp_all add: no_cells_def)
  then have "fid_aux f < length (up_cells (sy_fs S))" by (rule fid_made [OF _ _ S(3)]) (simp add: S(2))
  from locked_fields_do_not_change [OF S(1) unpfs_env_fs _ S(5) this S(4), of "''realpath''"] S show ?thesis
    by (auto simp: cell_def)
qed

end
