(* ===== verification/Startup.thy ===== *)
theory Startup
  imports Export Listen
begin

text \<open>
  The command \<^verbatim>\<open>unpfs\<close>, the end of \<^verbatim>\<open>crates/unpfs/src/main.rs\<close>: what it does between its
  command line and the listener, and its exit code.
\<close>

section \<open>The command\<close>

record Cli =
  cli_address :: rstring
  cli_exportdir :: path
  cli_max_depth :: nat

definition default_max_depth :: nat where
  "default_max_depth = 200"

text \<open>
  The export directory is created when it is missing and must be a directory; then the
  server listens, and its configuration and what the listener did are the result.
\<close>

definition unpfs_main ::
  "'w os \<Rightarrow> 'st net \<Rightarrow> Cli \<Rightarrow> ('w, error, Unpfs \<times> 'st serving) comp" where
  "unpfs_main S N cli =
     and_then (io_call (os_try_exists S (cli_exportdir cli))) (\<lambda>there.
     and_then (if \<not> there then io_call (os_create_dir_all S (cli_exportdir cli)) else ok ()) (\<lambda>_.
     and_then (io_call (os_metadata S (cli_exportdir cli))) (\<lambda>attr.
     if \<not> md_is_dir attr then fail (error_from_io (Custom Other ''mount point must be a directory''))
     else ok (\<lparr>realroot = cli_exportdir cli, max_depth = cli_max_depth cli\<rparr>, srv_async N (cli_address cli)))))"

text \<open>The exit code; \<open>None\<close> while the listener waits for the next stream.\<close>

definition exit_code :: "error + Unpfs \<times> 'st serving \<Rightarrow> int option" where
  "exit_code r =
     (case r of
        Inl e \<Rightarrow> Some (- 1)
      | Inr (U, sv) \<Rightarrow>
          (case sv_result sv of
             None \<Rightarrow> None
           | Some (Inl e) \<Rightarrow> Some (- 1)
           | Some (Inr _) \<Rightarrow> Some 0))"

section \<open>Properties\<close>

lemma converting_eq_Inr: "converting conv op w = (Inr x, w') \<longleftrightarrow> op w = (Inr x, w')"
  by (auto simp: converting_def split: prod.splits sum.splits)

lemma unpfs_main_Inr:
  assumes "unpfs_main S N cli w = (Inr (U, sv), w')"
  obtains attr w1 where
    "U = \<lparr>realroot = cli_exportdir cli, max_depth = cli_max_depth cli\<rparr>"
    "sv = srv_async N (cli_address cli)"
    "os_metadata S (cli_exportdir cli) w1 = (Inr attr, w')" "md_is_dir attr"
  using assms
  by (auto simp: unpfs_main_def and_then_eq_Inr converting_eq_Inr ok_def fail_def split: if_splits)

text \<open>The accepts of the listener an address leads to.\<close>

definition listens :: "'st net \<Rightarrow> rstring \<Rightarrow> protocol \<Rightarrow> (io_error + 'st) list \<Rightarrow> bool" where
  "listens N arg P accepts \<longleftrightarrow>
     (\<exists>addr port.
        parse_proto arg = Some (ascii (case P of Tcp \<Rightarrow> ''tcp'' | Unix \<Rightarrow> ''unix''), addr, port) \<and>
        (case P of Tcp \<Rightarrow> tcp_bind N | Unix \<Rightarrow> unix_bind N) (addr @ ascii '':'' @ port) = Inr accepts)"

lemma tcp_not_unix: "ascii ''tcp'' \<noteq> ascii ''unix''"
  by (simp add: ascii_def)

lemma srv_async_listens: "listens N arg P accepts \<Longrightarrow> srv_async N arg = (case P of Tcp \<Rightarrow> tcp_loop accepts | Unix \<Rightarrow> unix_loop accepts)"
  using tcp_not_unix
  by (auto simp: listens_def srv_async_def srv_async_tcp_def srv_async_unix_def split: protocol.splits)

lemma srv_async_silent:
  assumes "\<And>P accepts. \<not> listens N arg P accepts"
  obtains e where "srv_async N arg = served_nothing (Inl e)"
proof (cases "parse_proto arg")
  case None
  then show thesis by (intro that) (simp add: srv_async_def)
next
  case (Some ps)
  obtain proto addr port where ps: "ps = (proto, addr, port)" by (metis prod_cases3)
  let ?addr = "addr @ ascii '':'' @ port"
  have "proto = ascii ''tcp'' \<Longrightarrow> \<exists>e. tcp_bind N ?addr = Inl e"
    using assms [of Tcp "projr (tcp_bind N ?addr)"] Some
    by (cases "tcp_bind N ?addr") (auto simp: listens_def ps)
  moreover have "proto = ascii ''unix'' \<Longrightarrow> \<exists>e. unix_bind N ?addr = Inl e"
    using assms [of Unix "projr (unix_bind N ?addr)"] Some
    by (cases "unix_bind N ?addr") (auto simp: listens_def ps)
  ultimately have "\<exists>e. srv_async N arg = served_nothing (Inl e)"
    by (cases "proto = ascii ''tcp''"; cases "proto = ascii ''unix''")
      (auto simp: srv_async_def srv_async_tcp_def srv_async_unix_def Some ps Let_def)
  then show thesis using that by blast
qed

lemma listens_once: "listens N arg P accepts \<Longrightarrow> listens N arg P' accepts' \<Longrightarrow> P' = P \<and> accepts' = accepts"
  using tcp_not_unix by (auto simp: listens_def split: protocol.splits)

lemma find_isl: "(find isl accepts = None) = (\<not> list_ex isl accepts)"
  by (induction accepts) auto

lemma exit_of_listener:
  "exit_code (Inr (U, srv_async N arg)) =
     (if \<exists>P accepts. listens N arg P accepts \<and> \<not> list_ex isl accepts then None
      else if \<exists>accepts. listens N arg Unix accepts \<and> list_ex isl accepts then Some 0
      else Some (- 1))"
proof (cases "\<exists>P accepts. listens N arg P accepts")
  case True
  then obtain P accepts where l: "listens N arg P accepts" by blast
  then have "(\<exists>P accepts. listens N arg P accepts \<and> \<not> list_ex isl accepts) \<longleftrightarrow> find isl accepts = None"
    "(\<exists>accepts. listens N arg Unix accepts \<and> list_ex isl accepts) \<longleftrightarrow> P = Unix \<and> find isl accepts \<noteq> None"
    unfolding find_isl using listens_once [OF l] by blast+
  then show ?thesis
    by (cases P) (auto simp: exit_code_def srv_async_listens [OF l] tcp_loop_spec unix_loop_spec)
next
  case False
  then obtain e where "srv_async N arg = served_nothing (Inl e)" using srv_async_silent [of N arg] by blast
  with False show ?thesis by (auto simp: exit_code_def served_nothing_def)
qed


definition sample_cli :: Cli where
  "sample_cli =
     \<lparr>cli_address = ascii ''unix!/tmp/s!0'', cli_exportdir = ascii ''/srv'', cli_max_depth = default_max_depth\<rparr>"


end
