(* ===== verification/Spec2Isabelle.thy ===== *)
theory Spec2Isabelle
  imports Legacy Serialize Errors Server Confine Files Locks Startup
begin

text \<open>
  A model of \<^verbatim>\<open>rs9p\<close>, a library for file servers that speak 9P2000.L, and of \<^verbatim>\<open>unpfs\<close>, the
  server in the same repository that exports a directory of its host.

  \<^bold>\<open>The program.\<close> A listener accepts streams and spawns a connection for each. The codec cuts
  the bytes of a stream into frames. The serializer turns a frame into a message,
  a tag and a request; the dispatcher looks up the fids the request names, calls the method
  of the filesystem for it and updates the table of fids; the response is serialized with the
  tag of the request and sent. Each request runs as a task of its own, so the tasks of a
  connection interleave. A filesystem is an implementation of the trait \<^verbatim>\<open>Filesystem\<close>, and
  \<^verbatim>\<open>unpfs\<close> is one.

  \<^bold>\<open>The theories\<close>, in the order of the imports (paths under \<^verbatim>\<open>crates/\<close>):
  \<^item> \<open>Prelude\<close>: machine integers, I/O errors, fallible state passing, byte readers and
    writers, UTF-8.
  \<^item> \<open>FCall\<close> (\<^verbatim>\<open>rs9p/src/fcall.rs\<close>): the structures, flags and messages of the protocol.
  \<^item> \<open>Crates\<close>: the crates the serializer calls, as a record of functions with the locale
    \<open>crates_laws\<close> for what they document.
  \<^item> \<open>Interface\<close>: the operator \<^verbatim>\<open><<\<close> of the encoder, and the contracts \<open>encodable\<close>,
    \<open>decodable\<close>, \<open>codec\<close> and \<open>sound_codec\<close> every serializable type keeps.
  \<^item> \<open>Wire\<close>: the wire format, as an abstract specification of the bytes of each type.
  \<^item> \<open>Encode\<close>, \<open>Decode\<close> (\<^verbatim>\<open>rs9p/src/serialize.rs\<close>): one definition for each impl of
    \<^verbatim>\<open>Encodable\<close> and \<^verbatim>\<open>Decodable\<close>, each shown to keep its contract.
  \<^item> \<open>Serialize\<close>: the properties of \<^verbatim>\<open>read_msg\<close> and \<^verbatim>\<open>write_msg\<close>.
  \<^item> \<open>Errors\<close> (\<^verbatim>\<open>rs9p/src/error.rs\<close>): the error type and its errno, against the kinds the standard
    library gives to errnos.
  \<^item> \<open>Legacy\<close> (\<^verbatim>\<open>rs9p/src/fcall.rs\<close>, \<^verbatim>\<open>rs9p/src/error.rs\<close>): the module \<^verbatim>\<open>p92000\<close> and the
    table of error strings.
  \<^item> \<open>Future\<close>: \<^verbatim>\<open>async\<close> blocks, as computations in atomic pieces, with the locks one waits for and
    holds at each; running one alone, what one keeps or yields whatever runs between its
    pieces, and \<open>orderly\<close>, taking one lock at a time and giving it back.
  \<^item> \<open>Server\<close> (\<^verbatim>\<open>rs9p/src/srv.rs\<close>): the trait \<^verbatim>\<open>Filesystem\<close>, the fid table and
    \<^verbatim>\<open>dispatch_once\<close>; the locale \<open>filesystem_contract\<close> for what a filesystem promises about
    its state and the data behind its fids, at every piece of its methods, \<open>method_law\<close> for
    what its futures keep to, and \<open>lock_discipline\<close>, which extends it, for how they lock.
  \<^item> \<open>Framing\<close> (\<^verbatim>\<open>rs9p/src/srv.rs\<close>): the configuration of \<^verbatim>\<open>LengthDelimitedCodec\<close>, and the
    locale \<open>codec_laws\<close> for what the codec documents about it: which bytes are frames, which
    frames are refused. The documented codec is written out and interprets it.
  \<^item> \<open>Connection\<close> (\<^verbatim>\<open>rs9p/src/srv.rs\<close>): \<^verbatim>\<open>dispatch\<close> as a step relation, from the bytes of a
    client to the frames sent. A task takes the
    moves the source separates by its locks: the pieces of its method under the read lock of
    the table, the removal of the clunked fid and the insertion of the new fid under its
    write lock, the reply. This lock and those of the filesystem are part of the relation: a
    task that waits for one moves when no other excludes it. A frame the stream fails on waits
    in the sink or is dropped. \<open>shared_step\<close> adds the changes
    other connections and processes make to the state of the filesystem in between.
  \<^item> \<open>Interleave\<close>: what holds of a connection in every interleaving, among any others.
  \<^item> \<open>Listen\<close> (\<^verbatim>\<open>rs9p/src/srv.rs\<close>, \<^verbatim>\<open>rs9p/src/utils.rs\<close>): addresses and accept loops.
  \<^item> \<open>System\<close> (\<^verbatim>\<open>rs9p/src/srv.rs\<close>): the listener and all its connections over one state of the
    filesystem. A task waits for the locks of the tasks of all connections; none of them waits
    for ever when each method takes one lock at a time. The listener does what the loops of \<open>Listen\<close> compute, and each connection is
    a connection of \<open>Connection\<close> for which the others are changes from outside, so what
    \<open>Interleave\<close> shows of one holds of all.
  \<^item> \<open>Host\<close> (\<^verbatim>\<open>unpfs/src/utils.rs\<close>, \<^verbatim>\<open>rs9p/src/fcall.rs\<close>): paths, lossy names, the calls to
    the operating system as a record of functions, the conversions of metadata.
  \<^item> \<open>Unpfs\<close> (\<^verbatim>\<open>unpfs/src/main.rs\<close>): one future for each method, a piece for each lock it
    takes on a field of a fid and for each call of the host, and the lock of the path or of
    the open file held over the calls the source makes under it; its data behind the fids is a
    list of cells that fids address, since the source shares and mutates it in place. It keeps
    \<open>filesystem_contract\<close> with the promise that no fid lies deeper than the limit, and
    \<open>lock_discipline\<close>.
  \<^item> \<open>Export\<close>: the properties of \<^verbatim>\<open>unpfs\<close>, method by method.
  \<^item> \<open>Answers\<close>: each of its methods ends with an error or a reply that fits a frame.
  \<^item> \<open>Clients\<close>: \<^verbatim>\<open>unpfs\<close> and all its clients, who are answered, limited in depth and
    isolated from each other.
  \<^item> \<open>Confine\<close>: what keeps a client inside the exported directory, by \<open>ensures\<close> of \<open>Future\<close>, the
    rely-guarantee reading of a method among others.
  \<^item> \<open>Files\<close>: the locale \<open>host_files\<close> for what a host documents about the content of its files, and
    that what is written through \<^verbatim>\<open>unpfs\<close> is what is read; a host with files interprets it.
  \<^item> \<open>Locks\<close>: what its locks are for. A field changes under its lock only (\<open>method_law\<close> again),
    and a read or write has the open file to itself.
  \<^item> \<open>Startup\<close> (\<^verbatim>\<open>unpfs/src/main.rs\<close>): the command, up to its exit code.

  \<^bold>\<open>What the lemmas show.\<close> Encoding implements the wire format on growing and on fixed buffers;
  decoding inverts it on exactly the messages the format can carry, consumes no more than it
  needs, fails in three ways only and yields valid messages from any bytes. The dispatcher refuses
  by the request and the table alone and changes the table in the two ways the protocol has. An
  I/O error has the errno of its number or of its kind, whichever it came with. A connection ends,
  and so does the server once no more clients come, and neither deadlocks on the locks of the
  filesystem; its requests are its frames in order, its replies answer its requests one to one in
  every interleaving, the fids a running method was given stay in the table until it ends, and a
  task no other disturbs is the function \<^verbatim>\<open>dispatch_once\<close>. Every request is answered if the
  filesystem always has an answer that fits a frame, which \<^verbatim>\<open>unpfs\<close> has on a host of bounded
  names: a client of \<^verbatim>\<open>unpfs\<close> gets a reply to each of its requests whatever the other clients
  send. A fid never exceeds the depth limit in any reachable state, no client reaches the data
  behind the fids of another, one that sends plain names only gets no path outside the export, and
  a method changes the data of no fid but the one it binds; a field whose lock is held keeps its
  value, and a read or write shares the open file of its fid with no other request; walks bind the
  path they name, listings are complete, and what was written is what is read. The command ends
  with success in one way only. Where the code departs from its documentation or its intent, a
  theorem states what it does: listings that cannot be read back, strings cut at 64 KiB, partial
  walks that bind a missing path, names that leave the export, the entries \<^verbatim>\<open>.\<close> and \<^verbatim>\<open>..\<close> of the
  working directory, times that fail to be set without an error, replies too large for a frame
  that are dropped without an answer.

  \<^bold>\<open>Parameters.\<close> Third-party code is an argument of the definitions that use it:
  \<^verbatim>\<open>byteorder\<close>, \<^verbatim>\<open>from_bits_truncate\<close> and \<^verbatim>\<open>from_u8\<close> in \<open>crates\<close>; \<^verbatim>\<open>nix\<close> errnos in \<open>nix\<close>;
  \<^verbatim>\<open>tokio::fs\<close>, \<^verbatim>\<open>filetime\<close> and the calls and flags of \<^verbatim>\<open>nix\<close> and \<^verbatim>\<open>libc\<close> in \<open>os\<close>; the
  sockets of \<^verbatim>\<open>tokio\<close> in \<open>net\<close>; \<^verbatim>\<open>LengthDelimitedCodec\<close> in \<open>codec\<close>. The set operations of a flag type (\<^verbatim>\<open>contains\<close>,
  \<^verbatim>\<open>intersects\<close>, \<^verbatim>\<open>insert\<close>, \<^verbatim>\<open>|\<close>) are written as the bit operations they are.

  \<^bold>\<open>Bounds and termination.\<close> Integers of the wire keep their width and wrap as in a release
  build; \<^verbatim>\<open>usize\<close> counters and lengths, which count bytes or entries in memory, are natural
  numbers. Every function is total. The only fuel is that of the client \<open>list_directory\<close> in
  \<open>Export\<close>, one more than the entries left, and its theorem shows that this is enough. The
  steps of a connection decrease \<open>conn_order\<close>: the frames left, then the multiset of the tasks,
  each by its stage and by its place in the future of its method; those of the server decrease
  \<open>sys_order\<close>, the accepts left and then the multiset of the connections. No future runs for ever,
  since the loops of the methods run over the names of a request and the entries of a
  directory stream, which is the list of what it yields.

  \<^bold>\<open>Not modelled.\<close> \<^verbatim>\<open>tokio\<close> hands a lock to the tasks that wait for it in the order they came; in
  the model any of them may get it next, which allows more interleavings. A connection looked at
  alone (\<open>conn_step\<close>, \<open>shared_step\<close>) waits for the locks of its own tasks only, the server
  (\<open>sys_step\<close>) for all. The properties of one method over \<open>run\<close> are about a host nothing else
  changes meanwhile; those over \<open>steady\<close>, \<open>yields\<close> and \<open>shared_step\<close> are not. Cancellation, panics
  and the end of the process are not modelled, nor is the splitting of a stream into packets: a
  stream is the bytes it carries until it ends, and a frame counts as sent when the last of it has
  left. A directory stream is the list of what it yields, taken when the directory is opened,
  where the source asks for an entry at a time and may see some of the changes made meanwhile.
  Logging, the capacity of vectors, closing of files by drop and the parsing of the command line
  are left out too.
\<close>

end
